theory Spec2Isabelle
  imports Complex_Main "HOL-Library.Multiset"
begin

section \<open>The subtitle engine of App.js: ASSParser and SubtitleRenderer\<close>

text \<open>
  A shallow embedding of the class \<open>ASSParser\<close> (App.js, lines 15 to 126) and of the pure
  helpers of \<open>SubtitleRenderer\<close> (lines 154 to 184).

  Conventions of the embedding.
  \<^item> A JavaScript string is a \<open>string\<close>: a list of code units below 256. White space and
    letter case are modelled for these code units; the white space of JavaScript beyond
    U+00FF is outside the model.
  \<^item> A JavaScript number is a \<open>jsnum\<close>: \<open>NaN\<close>, the two infinities, or a finite
    binary64 value held as the rational it denotes. Every result of an operation or of a
    conversion from text is rounded by \<open>round64\<close>: to the nearest binary64 value, a tie to
    the even one, with overflow to an infinity and underflow to zero. Only the sign of zero
    is not modelled; the program never observes it (\<open>-0\<close> is falsy, compares equal to
    \<open>0\<close> and prints as \<open>0\<close>).
  \<^item> Where ECMAScript lets an implementation replace the digits after the 20th of a decimal
    numeral by zeros, the model reads the numeral exactly.
  \<^item> \<open>undefined\<close>, the value of an array read past the end, is \<open>None\<close> of an option.
  \<^item> The object \<open>this.styles\<close> is a map from names to style records; the properties
    that every JavaScript object inherits are not modelled.
\<close>

subsection \<open>Numbers\<close>

datatype jsnum = NaN | NegInf | Fin rat | PosInf

fun num_neg :: "jsnum \<Rightarrow> jsnum" where
  "num_neg NaN = NaN"
| "num_neg NegInf = PosInf"
| "num_neg PosInf = NegInf"
| "num_neg (Fin a) = Fin (- a)"

text \<open>
  The binary64 value of a rational. \<open>bitlen a\<close> is the number of binary digits of \<open>a\<close>,
  and \<open>exponent q\<close> is the \<open>e\<close> with \<open>2^e <= q < 2^(e+1)\<close> for a positive \<open>q\<close>. A
  positive \<open>q\<close> is rounded to a multiple of \<open>2^(e - 52)\<close>, and of \<open>2^(-1074)\<close> below the
  normal range; a result of \<open>2^1024\<close> or more is an infinity.
\<close>

definition pow2 :: "int \<Rightarrow> rat" where
  "pow2 e = (if 0 \<le> e then 2 ^ nat e else 1 / 2 ^ nat (- e))"

function bitlen :: "int \<Rightarrow> int" where
  "bitlen a = (if 0 < a then 1 + bitlen (a div 2) else 0)"
  by pat_completeness auto
termination
  by (relation "measure nat") auto

declare bitlen.simps [simp del]

definition exponent :: "rat \<Rightarrow> int" where
  "exponent q =
     (let (a, b) = quotient_of q; d = bitlen a - bitlen b
      in if pow2 d \<le> q then d else d - 1)"

definition round_half_even :: "rat \<Rightarrow> int" where
  "round_half_even m =
     (let n = \<lfloor>m\<rfloor>; r = m - of_int n
      in if r < 1 / 2 then n else if 1 / 2 < r then n + 1 else if even n then n else n + 1)"

definition round64_pos :: "rat \<Rightarrow> jsnum" where
  "round64_pos q =
     (let e = max (exponent q) (- 1022) in
      if 1023 < e then PosInf
      else
        (let ulp = pow2 (e - 52); n = round_half_even (q / ulp)
         in if e = 1023 \<and> 2 ^ 53 \<le> n then PosInf else Fin (of_int n * ulp)))"

definition round64 :: "rat \<Rightarrow> jsnum" where
  "round64 q =
     (if q = 0 then Fin 0 else if 0 < q then round64_pos q else num_neg (round64_pos (- q)))"

text \<open>
  Addition, subtraction and multiplication as IEEE 754 has them: the exact result rounded,
  and the special values by the rules of the standard.
\<close>

fun num_add :: "jsnum \<Rightarrow> jsnum \<Rightarrow> jsnum" where
  "num_add (Fin a) (Fin b) = round64 (a + b)"
| "num_add NaN _ = NaN"
| "num_add _ NaN = NaN"
| "num_add PosInf NegInf = NaN"
| "num_add NegInf PosInf = NaN"
| "num_add PosInf _ = PosInf"
| "num_add _ PosInf = PosInf"
| "num_add NegInf _ = NegInf"
| "num_add _ NegInf = NegInf"

definition num_sub :: "jsnum \<Rightarrow> jsnum \<Rightarrow> jsnum" where
  "num_sub a b = num_add a (num_neg b)"

definition inf_times :: "jsnum \<Rightarrow> rat \<Rightarrow> jsnum" where
  "inf_times i b = (if b = 0 then NaN else if 0 < b then i else num_neg i)"

fun num_mul :: "jsnum \<Rightarrow> jsnum \<Rightarrow> jsnum" where
  "num_mul (Fin a) (Fin b) = round64 (a * b)"
| "num_mul NaN _ = NaN"
| "num_mul _ NaN = NaN"
| "num_mul PosInf (Fin b) = inf_times PosInf b"
| "num_mul NegInf (Fin b) = inf_times NegInf b"
| "num_mul (Fin a) PosInf = inf_times PosInf a"
| "num_mul (Fin a) NegInf = inf_times NegInf a"
| "num_mul PosInf PosInf = PosInf"
| "num_mul NegInf NegInf = PosInf"
| "num_mul PosInf NegInf = NegInf"
| "num_mul NegInf PosInf = NegInf"

text \<open>The comparison \<open>a <= b\<close>: false as soon as one side is \<open>NaN\<close>.\<close>

fun num_le :: "jsnum \<Rightarrow> jsnum \<Rightarrow> bool" where
  "num_le (Fin a) (Fin b) = (a \<le> b)"
| "num_le NaN _ = False"
| "num_le _ NaN = False"
| "num_le NegInf _ = True"
| "num_le _ PosInf = True"
| "num_le _ NegInf = False"
| "num_le PosInf _ = False"

text \<open>\<open>a >= b\<close>.\<close>

definition num_ge :: "jsnum \<Rightarrow> jsnum \<Rightarrow> bool" where
  "num_ge a b = num_le b a"

text \<open>The idiom \<open>x || d\<close> on a number: \<open>NaN\<close> and zero are falsy and give \<open>d\<close>.\<close>

definition num_or :: "jsnum \<Rightarrow> jsnum \<Rightarrow> jsnum" where
  "num_or x d = (if x = NaN \<or> x = Fin 0 then d else x)"

subsection \<open>Strings and arrays\<close>

text \<open>White space as \<open>String.prototype.trim\<close>, \<open>parseInt\<close> and \<open>parseFloat\<close> skip it.\<close>

definition is_ws :: "char \<Rightarrow> bool" where
  "is_ws c = (c \<in> set [CHR 0x09, CHR 0x0A, CHR 0x0B, CHR 0x0C, CHR 0x0D, CHR 0x20, CHR 0xA0])"

definition trimStart :: "string \<Rightarrow> string" where
  "trimStart s = dropWhile is_ws s"

definition trim :: "string \<Rightarrow> string" where
  "trim s = rev (dropWhile is_ws (rev (dropWhile is_ws s)))"

definition startsWith :: "string \<Rightarrow> string \<Rightarrow> bool" where
  "startsWith s p = (take (length p) s = p)"

definition endsWith :: "string \<Rightarrow> string \<Rightarrow> bool" where
  "endsWith s p = (length p \<le> length s \<and> drop (length s - length p) s = p)"

text \<open>\<open>s.split(c)\<close> for a separator of one character: never empty, \<open>"".split(c)\<close> is \<open>[""]\<close>.\<close>

fun split :: "char \<Rightarrow> string \<Rightarrow> string list" where
  "split c [] = [[]]"
| "split c (x # xs) =
     (if x = c then [] # split c xs
      else (case split c xs of [] \<Rightarrow> [[x]] | w # ws \<Rightarrow> (x # w) # ws))"

text \<open>\<open>parts.join(c)\<close>.\<close>

fun join :: "char \<Rightarrow> string list \<Rightarrow> string" where
  "join c [] = []"
| "join c [x] = x"
| "join c (x # y # ys) = x @ c # join c (y # ys)"

text \<open>\<open>s.slice(b, e)\<close>: a negative index counts from the end, both are clamped.\<close>

definition slice_index :: "nat \<Rightarrow> int \<Rightarrow> nat" where
  "slice_index len i = (if i < 0 then nat (max (int len + i) 0) else min (nat i) len)"

definition slice :: "'a list \<Rightarrow> int \<Rightarrow> int \<Rightarrow> 'a list" where
  "slice s b e =
     (let from = slice_index (length s) b; to = slice_index (length s) e
      in take (to - from) (drop from s))"

text \<open>\<open>parts.slice(b)\<close>, to the end.\<close>

definition slice_from :: "'a list \<Rightarrow> int \<Rightarrow> 'a list" where
  "slice_from s b = drop (slice_index (length s) b) s"

text \<open>\<open>s.substr(b, n)\<close> for a start \<open>b\<close> that is not negative.\<close>

definition substr :: "string \<Rightarrow> nat \<Rightarrow> nat \<Rightarrow> string" where
  "substr s b n = take n (drop b s)"

text \<open>\<open>s.replace(p, r)\<close> with a string pattern: only the first occurrence is replaced.\<close>

fun replace :: "string \<Rightarrow> string \<Rightarrow> string \<Rightarrow> string" where
  "replace [] p r = (if p = [] then r else [])"
| "replace (x # xs) p r =
     (if startsWith (x # xs) p then r @ drop (length p) (x # xs)
      else x # replace xs p r)"

definition lower_char :: "char \<Rightarrow> char" where
  "lower_char c =
     (let n = (of_char c :: nat) in
      if (65 \<le> n \<and> n \<le> 90) \<or> (192 \<le> n \<and> n \<le> 222 \<and> n \<noteq> 215) then char_of (n + 32) else c)"

definition toLowerCase :: "string \<Rightarrow> string" where
  "toLowerCase s = map lower_char s"

text \<open>\<open>parts[i]\<close>: \<open>undefined\<close> past the end. \<open>ToString\<close> of it is the text \<open>undefined\<close>.\<close>

definition at_index :: "'a list \<Rightarrow> nat \<Rightarrow> 'a option" where
  "at_index xs i = (if i < length xs then Some (xs ! i) else None)"

definition ToString :: "string option \<Rightarrow> string" where
  "ToString v = (case v of None \<Rightarrow> ''undefined'' | Some s \<Rightarrow> s)"

text \<open>\<open>v === '-1'\<close> on a value that may be \<open>undefined\<close>.\<close>

definition strict_eq :: "string option \<Rightarrow> string \<Rightarrow> bool" where
  "strict_eq v s = (v = Some s)"

subsection \<open>parseInt and parseFloat\<close>

definition digit_val :: "char \<Rightarrow> nat option" where
  "digit_val c =
     (let n = (of_char c :: nat) in
      if 48 \<le> n \<and> n \<le> 57 then Some (n - 48)
      else if 97 \<le> n \<and> n \<le> 122 then Some (n - 87)
      else if 65 \<le> n \<and> n \<le> 90 then Some (n - 55)
      else None)"

definition is_digit :: "nat \<Rightarrow> char \<Rightarrow> bool" where
  "is_digit R c = (case digit_val c of None \<Rightarrow> False | Some d \<Rightarrow> d < R)"

definition digits_value :: "nat \<Rightarrow> string \<Rightarrow> int" where
  "digits_value R ds =
     foldl (\<lambda>acc c. acc * int R + (case digit_val c of None \<Rightarrow> 0 | Some d \<Rightarrow> int d)) 0 ds"

text \<open>A leading sign: whether it is a minus, and the rest.\<close>

definition take_sign :: "string \<Rightarrow> bool \<times> string" where
  "take_sign s =
     (case s of
        [] \<Rightarrow> (False, [])
      | c # cs \<Rightarrow> if c = CHR ''-'' then (True, cs) else if c = CHR ''+'' then (False, cs) else (False, s))"

text \<open>
  \<open>parseInt(s, radix)\<close> as ECMAScript defines it; the radix \<open>0\<close> stands for an absent radix.
  Leading white space is skipped, a sign is read, the prefix \<open>0x\<close> is removed when the radix
  is absent or 16, and the longest run of digits of the radix is the mathematical integer
  that is then rounded to a number; no digit gives \<open>NaN\<close>.
\<close>

definition parseInt :: "string \<Rightarrow> nat \<Rightarrow> jsnum" where
  "parseInt s radix =
     (let (neg, s1) = take_sign (trimStart s);
          hex = (radix = 0 \<or> radix = 16) \<and> (startsWith s1 ''0x'' \<or> startsWith s1 ''0X'');
          R = (if radix = 0 then (if hex then 16 else 10) else radix);
          s2 = (if hex then drop 2 s1 else s1);
          z = takeWhile (is_digit R) s2
      in if R < 2 \<or> 36 < R then NaN
         else if z = [] then NaN
         else round64 (of_int ((if neg then - 1 else 1) * digits_value R z)))"

text \<open>
  \<open>parseFloat(s)\<close>: leading white space is skipped, then the longest prefix that is a
  decimal literal is read: a sign, then \<open>Infinity\<close> or digits with an optional fraction and
  an optional exponent; an exponent with no digit is not part of the literal. The value of
  the literal is rounded to a number.
\<close>

definition exponent_of :: "string \<Rightarrow> int" where
  "exponent_of s =
     (case s of
        [] \<Rightarrow> 0
      | c # cs \<Rightarrow>
          if c = CHR ''e'' \<or> c = CHR ''E'' then
            (let (neg, ds) = take_sign cs; z = takeWhile (is_digit 10) ds
             in if z = [] then 0 else (if neg then - 1 else 1) * digits_value 10 z)
          else 0)"

definition pow10 :: "int \<Rightarrow> rat" where
  "pow10 e = (if 0 \<le> e then 10 ^ nat e else 1 / 10 ^ nat (- e))"

definition parseFloat :: "string \<Rightarrow> jsnum" where
  "parseFloat s =
     (let (neg, u) = take_sign (trimStart s) in
      if startsWith u ''Infinity'' then (if neg then NegInf else PosInf)
      else
        (let ip = takeWhile (is_digit 10) u;
             r1 = dropWhile (is_digit 10) u;
             dot = startsWith r1 ''.'';
             fp = (if dot then takeWhile (is_digit 10) (drop 1 r1) else []);
             r2 = (if dot then dropWhile (is_digit 10) (drop 1 r1) else r1)
         in if ip = [] \<and> fp = [] then NaN
            else round64 ((if neg then - 1 else 1)
                      * (of_int (digits_value 10 ip) + of_int (digits_value 10 fp) / 10 ^ length fp)
                      * pow10 (exponent_of r2))))"

subsection \<open>ASSParser: the time and colour codecs\<close>

text \<open>
  \<open>parseTime\<close> (lines 96 to 106): three fields separated by colons, else 0; the value is
  \<open>(hours * 3600 + minutes * 60 + seconds) * 1000\<close>, each field \<open>|| 0\<close>.
\<close>

definition parseTime :: "string \<Rightarrow> jsnum" where
  "parseTime timeStr =
     (let parts = split CHR '':'' timeStr in
      if length parts \<noteq> 3 then Fin 0
      else
        (let hours = num_or (parseInt (ToString (at_index parts 0)) 0) (Fin 0);
             minutes = num_or (parseInt (ToString (at_index parts 1)) 0) (Fin 0);
             seconds = num_or (parseFloat (ToString (at_index parts 2))) (Fin 0)
         in num_mul (num_add (num_add (num_mul hours (Fin 3600)) (num_mul minutes (Fin 60))) seconds)
              (Fin 1000)))"

text \<open>
  A number inside a template literal: \<open>NaN\<close>, an infinity, or the decimal digits of an
  integer. This is what JavaScript prints for an integer of fewer than 22 digits. The
  parser prints only \<open>parseInt\<close> of at most two characters, which is \<open>NaN\<close> or an
  integer between -15 and 255; for a number with a fraction the model prints the integer
  part, which JavaScript does not.
\<close>

function show_nat :: "int \<Rightarrow> string" where
  "show_nat n =
     (if n < 10 then [''0123456789'' ! nat n]
      else show_nat (n div 10) @ [''0123456789'' ! nat (n mod 10)])"
  by pat_completeness auto
termination
  by (relation "measure nat") auto

declare show_nat.simps [simp del]

definition show_num :: "jsnum \<Rightarrow> string" where
  "show_num r =
     (case r of
        NaN \<Rightarrow> ''NaN''
      | PosInf \<Rightarrow> ''Infinity''
      | NegInf \<Rightarrow> ''-Infinity''
      | Fin v \<Rightarrow> if v < 0 then CHR ''-'' # show_nat \<lfloor>- v\<rfloor> else show_nat \<lfloor>v\<rfloor>)"

text \<open>
  \<open>parseColor\<close> (lines 108 to 119): a field that starts with \<open>&H\<close> and ends with \<open>&\<close> is read
  as three pairs of hexadecimal digits, blue, green, red, and printed as \<open>rgb(r, g, b)\<close>; any
  other field is white.
\<close>

definition parseColor :: "string \<Rightarrow> string" where
  "parseColor colorStr =
     (if startsWith colorStr ''&H'' \<and> endsWith colorStr ''&'' then
        (let hex = slice colorStr 2 (- 1);
             b = parseInt (substr hex 0 2) 16;
             g = parseInt (substr hex 2 2) 16;
             r = parseInt (substr hex 4 2) 16
         in ''rgb('' @ show_num r @ '', '' @ show_num g @ '', '' @ show_num b @ '')'')
      else ''#ffffff'')"

subsection \<open>ASSParser: styles and events\<close>

record StyleRecord =
  name :: string
  fontName :: string
  fontSize :: jsnum
  primaryColour :: string
  secondaryColour :: string
  outlineColour :: string
  backColour :: string
  bold :: bool
  italic :: bool
  underline :: bool
  strikeOut :: bool
  scaleX :: jsnum
  scaleY :: jsnum
  spacing :: jsnum
  angle :: jsnum
  borderStyle :: jsnum
  outline :: jsnum
  shadow :: jsnum
  alignment :: jsnum
  marginL :: jsnum
  marginR :: jsnum
  marginV :: jsnum

text \<open>
  The fields of an event carry the prefix \<open>ev_\<close>: \<open>end\<close> and \<open>text\<close> are keywords, and
  \<open>name\<close> and the margins are fields of a style too.
\<close>

record DialogueEvent =
  ev_layer :: jsnum
  ev_start :: jsnum
  ev_end :: jsnum
  ev_style :: string
  ev_name :: string
  ev_marginL :: jsnum
  ev_marginR :: jsnum
  ev_marginV :: jsnum
  ev_effect :: string
  ev_text :: string

text \<open>The object: \<open>this.assContent\<close>, \<open>this.styles\<close> (keyed by name) and \<open>this.events\<close>.\<close>

record ASSParser =
  assContent :: string
  styles :: "string \<rightharpoonup> StyleRecord"
  events :: "DialogueEvent list"

text \<open>
  The object literal of \<open>parseStyle\<close> (lines 49 to 72). It is built only when there are at
  least 16 parts, so the positions 0 to 15 exist; the positions 16 to 21 may be \<open>undefined\<close>.
\<close>

definition style_of_parts :: "string list \<Rightarrow> StyleRecord" where
  "style_of_parts parts =
     \<lparr> name = trim (parts ! 0),
       fontName = trim (parts ! 1),
       fontSize = num_or (parseInt (ToString (at_index parts 2)) 0) (Fin 16),
       primaryColour = parseColor (parts ! 3),
       secondaryColour = parseColor (parts ! 4),
       outlineColour = parseColor (parts ! 5),
       backColour = parseColor (parts ! 6),
       bold = strict_eq (at_index parts 7) ''-1'',
       italic = strict_eq (at_index parts 8) ''-1'',
       underline = strict_eq (at_index parts 9) ''-1'',
       strikeOut = strict_eq (at_index parts 10) ''-1'',
       scaleX = num_or (parseFloat (ToString (at_index parts 11))) (Fin 100),
       scaleY = num_or (parseFloat (ToString (at_index parts 12))) (Fin 100),
       spacing = num_or (parseFloat (ToString (at_index parts 13))) (Fin 0),
       angle = num_or (parseFloat (ToString (at_index parts 14))) (Fin 0),
       borderStyle = num_or (parseInt (ToString (at_index parts 15)) 0) (Fin 1),
       outline = num_or (parseFloat (ToString (at_index parts 16))) (Fin 0),
       shadow = num_or (parseFloat (ToString (at_index parts 17))) (Fin 0),
       alignment = num_or (parseInt (ToString (at_index parts 18)) 0) (Fin 2),
       marginL = num_or (parseInt (ToString (at_index parts 19)) 0) (Fin 0),
       marginR = num_or (parseInt (ToString (at_index parts 20)) 0) (Fin 0),
       marginV = num_or (parseInt (ToString (at_index parts 21)) 0) (Fin 0) \<rparr>"

text \<open>\<open>parseStyle\<close> (lines 46 to 75): a line with fewer than 16 parts changes nothing.\<close>

definition style_parts :: "string \<Rightarrow> string list" where
  "style_parts line = split CHR '','' (replace line ''Style:'' [])"

definition parseStyle :: "ASSParser \<Rightarrow> string \<Rightarrow> ASSParser" where
  "parseStyle this line =
     (let parts = style_parts line in
      if 16 \<le> length parts then
        (let style = style_of_parts parts
         in this\<lparr>styles := (styles this)(name style \<mapsto> style)\<rparr>)
      else this)"

text \<open>The object literal of \<open>parseDialogue\<close> (lines 80 to 91), built when there are at least 10 parts.\<close>

definition event_of_parts :: "string list \<Rightarrow> DialogueEvent" where
  "event_of_parts parts =
     \<lparr> ev_layer = num_or (parseInt (ToString (at_index parts 0)) 0) (Fin 0),
       ev_start = parseTime (trim (parts ! 1)),
       ev_end = parseTime (trim (parts ! 2)),
       ev_style = trim (parts ! 3),
       ev_name = trim (parts ! 4),
       ev_marginL = num_or (parseInt (ToString (at_index parts 5)) 0) (Fin 0),
       ev_marginR = num_or (parseInt (ToString (at_index parts 6)) 0) (Fin 0),
       ev_marginV = num_or (parseInt (ToString (at_index parts 7)) 0) (Fin 0),
       ev_effect = trim (parts ! 8),
       ev_text = trim (join CHR '','' (slice_from parts 9)) \<rparr>"

definition dialogue_parts :: "string \<Rightarrow> string list" where
  "dialogue_parts line = split CHR '','' (replace line ''Dialogue:'' [])"

text \<open>\<open>parseDialogue\<close> (lines 77 to 94): the event is pushed at the end of \<open>this.events\<close>.\<close>

definition parseDialogue :: "ASSParser \<Rightarrow> string \<Rightarrow> ASSParser" where
  "parseDialogue this line =
     (let parts = dialogue_parts line in
      if 10 \<le> length parts then this\<lparr>events := events this @ [event_of_parts parts]\<rparr>
      else this)"

subsection \<open>ASSParser: the whole text\<close>

text \<open>
  \<open>Array.prototype.sort\<close> with a comparator: \<open>a\<close> goes after \<open>b\<close> when \<open>cmp a b\<close> is
  positive, and a comparator result \<open>NaN\<close> counts as zero. The model is a stable insertion
  sort; for a consistent comparator ECMAScript fixes the result up to the order of equal
  elements.
\<close>

definition is_positive :: "jsnum \<Rightarrow> bool" where
  "is_positive v = (case v of PosInf \<Rightarrow> True | Fin q \<Rightarrow> 0 < q | _ \<Rightarrow> False)"

fun insert_sorted :: "('a \<Rightarrow> 'a \<Rightarrow> jsnum) \<Rightarrow> 'a \<Rightarrow> 'a list \<Rightarrow> 'a list" where
  "insert_sorted cmp x [] = [x]"
| "insert_sorted cmp x (y # ys) =
     (if is_positive (cmp x y) then y # insert_sorted cmp x ys else x # y # ys)"

definition array_sort :: "('a \<Rightarrow> 'a \<Rightarrow> jsnum) \<Rightarrow> 'a list \<Rightarrow> 'a list" where
  "array_sort cmp xs = foldr (insert_sorted cmp) xs []"

text \<open>The comparator of line 43: \<open>(a, b) => a.start - b.start\<close>.\<close>

definition compare_start :: "DialogueEvent \<Rightarrow> DialogueEvent \<Rightarrow> jsnum" where
  "compare_start a b = num_sub (ev_start a) (ev_start b)"

text \<open>
  One turn of the loop of \<open>parseASS\<close> (lines 27 to 40) on the state \<open>(currentSection, this)\<close>;
  \<open>currentSection\<close> is \<open>null\<close> (\<open>None\<close>) until the first header.
\<close>

definition parse_line :: "string option \<times> ASSParser \<Rightarrow> string \<Rightarrow> string option \<times> ASSParser" where
  "parse_line st raw =
     (let (currentSection, this) = st; line = trim raw in
      if startsWith line ''['' \<and> endsWith line '']'' then
        (Some (toLowerCase (slice line 1 (- 1))), this)
      else if currentSection = Some ''v4+ styles'' \<and> startsWith line ''Style:'' then
        (currentSection, parseStyle this line)
      else if currentSection = Some ''events'' \<and> startsWith line ''Dialogue:'' then
        (currentSection, parseDialogue this line)
      else (currentSection, this))"

text \<open>\<open>parseASS\<close> (lines 23 to 44): the loop over the lines, then the sort of the events.\<close>

definition parseASS :: "ASSParser \<Rightarrow> ASSParser" where
  "parseASS this =
     (let lines = split (CHR 0x0A) (assContent this);
          this' = snd (foldl parse_line (None, this) lines)
      in this'\<lparr>events := array_sort compare_start (events this')\<rparr>)"

text \<open>The constructor (lines 16 to 21).\<close>

definition new_ASSParser :: "string \<Rightarrow> ASSParser" where
  "new_ASSParser content = parseASS \<lparr> assContent = content, styles = Map.empty, events = [] \<rparr>"

text \<open>\<open>getActiveSubtitles\<close> (lines 121 to 125).\<close>

definition getActiveSubtitles :: "ASSParser \<Rightarrow> jsnum \<Rightarrow> DialogueEvent list" where
  "getActiveSubtitles this currentTime =
     filter (\<lambda>event. num_ge currentTime (ev_start event) \<and> num_le currentTime (ev_end event))
       (events this)"

subsection \<open>SubtitleRenderer\<close>

text \<open>
  \<open>getPositionStyle\<close> (lines 154 to 176). The style may be absent; a style object is the
  list of its properties. \<open>style.alignment || 2\<close> replaces a zero.
\<close>

definition getPositionStyle :: "StyleRecord option \<Rightarrow> (string \<times> string) list" where
  "getPositionStyle style =
     (case style of
        None \<Rightarrow> []
      | Some st \<Rightarrow>
          (let al = num_or (alignment st) (Fin 2);
               (textAlign, alignSelf) =
                 (if al \<in> set [Fin 1, Fin 4, Fin 7] then (''left'', ''flex-start'')
                  else if al \<in> set [Fin 3, Fin 6, Fin 9] then (''right'', ''flex-end'')
                  else (''center'', ''center''))
           in [(''textAlign'', textAlign), (''alignSelf'', alignSelf), (''width'', ''100%'')]))"




subsection \<open>Predicates and inputs used in the statements\<close>

text \<open>No event of the parser has a start time that is \<open>NaN\<close>.\<close>

definition starts_ok :: "ASSParser \<Rightarrow> bool" where
  "starts_ok p = list_all (\<lambda>e. ev_start e \<noteq> NaN) (events p)"

text \<open>A subtitle text whose three dialogue lines are not in the order of their start times.\<close>

definition unordered_text :: string where
  "unordered_text = join (CHR 0x0A)
     [''[Events]'',
      ''Dialogue: 0,0:00:02.00,0:00:03.00,Default,,0,0,0,,third'',
      ''Dialogue: 0,0:00:00.00,0:00:01.00,Default,,0,0,0,,first'',
      ''Dialogue: 0,0:00:01.00,0:00:02.00,Default,,0,0,0,,second'']"

text \<open>Two dialogue lines with the intervals [0, 1000] and [1000, 2000].\<close>

definition two_events_text :: string where
  "two_events_text = join (CHR 0x0A)
     [''[Events]'',
      ''Dialogue: 0,0:00:00.00,0:00:01.00,Default,,0,0,0,,A'',
      ''Dialogue: 0,0:00:01.00,0:00:02.00,Default,,0,0,0,,B'']"

text \<open>
  The value the specification gives for a timestamp with the hours \<open>H\<close>, the minutes \<open>M\<close>
  and the seconds \<open>S\<close>: \<open>round(H * 3600000 + M * 60000 + S * 1000)\<close>, an integer. It follows
  the specification's words, to be compared with \<open>parseTime\<close>.
\<close>

definition spec_parseTimestamp :: "int \<Rightarrow> int \<Rightarrow> rat \<Rightarrow> jsnum" where
  "spec_parseTimestamp H M S =
     Fin (of_int (round (of_int H * 3600000 + of_int M * 60000 + S * 1000)))"

text \<open>A parser object before any line is read.\<close>

definition empty_parser :: ASSParser where
  "empty_parser = \<lparr> assContent = [], styles = Map.empty, events = [] \<rparr>"

text \<open>A style line of exactly 16 fields: it stops after the border style.\<close>

definition short_style_line :: string where
  "short_style_line =
     ''Style: Default,Arial,20,&H00FFFFFF,&H000000FF,&H00000000,&H00000000,0,0,0,0,100,100,0,0,1''"

text \<open>A styles section whose only style has the alignment field 15.\<close>

definition wide_alignment_text :: string where
  "wide_alignment_text = join (CHR 0x0A)
     [''[V4+ Styles]'',
      ''Style: Default,Arial,20,&H00FFFFFF,&H000000FF,&H00000000,&H00000000,0,0,0,0,100,100,0,0,1,2,0,15,10,10,10'']"

text \<open>A style line of 22 fields whose numeric fields are not numbers.\<close>

definition bad_fields_line :: string where
  "bad_fields_line = ''Style: Odd,Arial,big,white,,,,0,0,0,0,x,y,0,0,none,2,0,top,l,r,v''"

text \<open>Two dialogue lines whose text holds a comma; in the first a blank precedes the text.\<close>

definition padded_text_line :: string where
  "padded_text_line = ''Dialogue: 0,0:00:00.00,0:00:01.00,Default,,0,0,0,, Hello, world''"

definition comma_text_line :: string where
  "comma_text_line = ''Dialogue: 0,0:00:00.00,0:00:01.00,Default,,0,0,0,,Hello, world''"

text \<open>
  A text holds a tag when an opening brace has a closing brace somewhere after it: this is
  when the pattern \<open>\{[^}]*\}\<close> has a match.
\<close>

fun has_tag :: "string \<Rightarrow> bool" where
  "has_tag [] = False"
| "has_tag (c # cs) = ((c = CHR ''{'' \<and> CHR ''}'' \<in> set cs) \<or> has_tag cs)"



text \<open>
  The row of an alignment code on the numeric keypad, in the specification's words: 1 to 3
  the bottom row, 4 to 6 the middle row, 7 to 9 the top row.
\<close>

definition keypad_row :: "int \<Rightarrow> string" where
  "keypad_row a = (if a \<in> {1..3} then ''bottom'' else if a \<in> {4..6} then ''middle''
                   else if a \<in> {7..9} then ''top'' else ''none'')"

text \<open>A byte written as two hexadecimal digits, as a colour field holds it.\<close>

definition hex_digit :: "nat \<Rightarrow> char" where
  "hex_digit d = ''0123456789ABCDEF'' ! d"

definition hex_byte :: "nat \<Rightarrow> string" where
  "hex_byte n = [hex_digit (n div 16), hex_digit (n mod 16)]"

text \<open>
  The finite binary64 values are multiples of \<open>2^(-1074)\<close>: \<open>on_grid v\<close> says that \<open>v\<close> is
  one, and \<open>is_double x\<close> that a finite \<open>x\<close> is. A difference of two values on the grid
  is on the grid, so it rounds to zero only when it is zero.
\<close>

definition on_grid :: "rat \<Rightarrow> bool" where
  "on_grid v = (v * pow2 1074 \<in> \<int>)"

definition is_double :: "jsnum \<Rightarrow> bool" where
  "is_double x = (case x of Fin v \<Rightarrow> on_grid v | _ \<Rightarrow> True)"

text \<open>Every start time of the parser is on the grid.\<close>

definition starts_double :: "ASSParser \<Rightarrow> bool" where
  "starts_double p = list_all (\<lambda>e. is_double (ev_start e)) (events p)"

text \<open>A number that is zero or more, \<open>Infinity\<close> included.\<close>

definition nonneg :: "jsnum \<Rightarrow> bool" where
  "nonneg x = (case x of PosInf \<Rightarrow> True | Fin v \<Rightarrow> 0 \<le> v | _ \<Rightarrow> False)"

text \<open>
  Three dialogue lines; the start of the second has an hours field of 400 nines, which
  \<open>parseInt\<close> reads as \<open>Infinity\<close>, and the seconds \<open>-Infinity\<close>.
\<close>

definition nan_start_text :: string where
  "nan_start_text = join (CHR 0x0A)
     [''[Events]'',
      ''Dialogue: 0,0:00:02.00,0:00:03.00,Default,,0,0,0,,late'',
      ''Dialogue: 0,'' @ replicate 400 (CHR ''9'') @ '':0:-Infinity,0:00:01.00,Default,,0,0,0,,odd'',
      ''Dialogue: 0,0:00:01.00,0:00:02.00,Default,,0,0,0,,early'']"

section \<open>Properties\<close>

subsection \<open>Rounding to binary64\<close>

lemma pow2_powi: "pow2 e = 2 powi e"
  by (simp add: pow2_def power_int_def power_one_over inverse_eq_divide)

lemma pow2_pos: "0 < pow2 e"
  by (simp add: pow2_powi)

lemma pow2_add: "pow2 (a + b) = pow2 a * pow2 b"
  by (simp add: pow2_powi power_int_add)

lemma pow2_diff: "pow2 (a - b) = pow2 a / pow2 b"
  by (simp add: pow2_powi power_int_diff)

lemma pow2_mono: "a \<le> b \<Longrightarrow> pow2 a \<le> pow2 b"
  by (simp add: pow2_powi power_int_increasing)

lemma pow2_less_imp: "pow2 a < pow2 b \<Longrightarrow> a < b"
  using pow2_mono [of b a] by (cases "a < b") auto

lemma pow2_nat: "0 \<le> e \<Longrightarrow> pow2 e = of_int (2 ^ nat e)"
  by (simp add: pow2_def)

lemma pow2_Ints: "0 \<le> e \<Longrightarrow> pow2 e \<in> \<int>"
  by (simp add: pow2_nat del: of_int_power)

lemma pow2_0: "pow2 0 = 1"
  by (simp add: pow2_def)

lemma bitlen_nonpos: "a \<le> 0 \<Longrightarrow> bitlen a = 0"
  by (simp add: bitlen.simps)

lemma bitlen_pos: "0 < a \<Longrightarrow> bitlen a = 1 + bitlen (a div 2)"
  by (subst bitlen.simps) simp

lemma bitlen_bounds_int:
  "0 < a \<Longrightarrow> 0 < bitlen a \<and> a < 2 ^ nat (bitlen a) \<and> 2 ^ (nat (bitlen a) - 1) \<le> a"
proof (induction a rule: bitlen.induct)
  case (1 a)
  show ?case
  proof (cases "0 < a div 2")
    case False
    with 1(2) have a1: "a = 1" by (simp add: pos_imp_zdiv_pos_iff)
    have "bitlen (a div 2) = 0" using False by (simp add: bitlen_nonpos)
    with 1(2) have "bitlen a = 1" by (simp add: bitlen_pos)
    with a1 show ?thesis by simp
  next
    case True
    with 1 have ih: "0 < bitlen (a div 2)" "a div 2 < 2 ^ nat (bitlen (a div 2))"
      "2 ^ (nat (bitlen (a div 2)) - 1) \<le> a div 2"
      by simp_all
    define k where "k = nat (bitlen (a div 2))"
    have kpos: "0 < k" using ih(1) by (simp add: k_def)
    have b: "bitlen a = 1 + int k"
      using 1(2) ih(1) by (simp add: bitlen_pos k_def)
    have up: "a < 2 ^ Suc k"
      using ih(2) by (simp add: k_def [symmetric]; linarith)
    have "(2::int) ^ k = 2 * 2 ^ (k - 1)"
      using kpos by (cases k) simp_all
    with ih(3) have lo: "2 ^ k \<le> a"
      by (simp add: k_def [symmetric]; linarith)
    from b up lo show ?thesis
      by (simp add: nat_add_distrib)
  qed
qed

lemma bitlen_bounds:
  assumes "0 < a"
  shows "of_int a < pow2 (bitlen a)" and "pow2 (bitlen a - 1) \<le> of_int a"
proof -
  from bitlen_bounds_int [OF assms]
  have p: "0 < bitlen a" and u: "a < 2 ^ nat (bitlen a)" and l: "2 ^ (nat (bitlen a) - 1) \<le> a"
    by simp_all
  have "(of_int a :: rat) < of_int (2 ^ nat (bitlen a))"
    using u by (simp only: of_int_less_iff)
  then show "of_int a < pow2 (bitlen a)"
    using p by (simp add: pow2_nat del: of_int_power)
  have "nat (bitlen a - 1) = nat (bitlen a) - 1" by simp
  moreover have "(of_int (2 ^ (nat (bitlen a) - 1)) :: rat) \<le> of_int a"
    using l by (simp only: of_int_le_iff)
  ultimately show "pow2 (bitlen a - 1) \<le> of_int a"
    using p by (simp add: pow2_nat del: of_int_power)
qed

lemma exponent_bounds:
  assumes "0 < q"
  shows "pow2 (exponent q) \<le> q" and "q < pow2 (exponent q + 1)"
proof -
  obtain a b where ab: "quotient_of q = (a, b)" by (cases "quotient_of q")
  then have b: "0 < b" and q: "q = of_int a / of_int b"
    by (simp_all add: quotient_of_denom_pos quotient_of_div)
  with assms have a: "0 < a" by (simp add: zero_less_divide_iff)
  define d where "d = bitlen a - bitlen b"
  have e: "exponent q = (if pow2 d \<le> q then d else d - 1)"
    by (simp add: exponent_def ab d_def)
  have "pow2 (d - 1) = pow2 (bitlen a - 1) / pow2 (bitlen b)"
    by (simp add: d_def flip: pow2_diff) (simp add: algebra_simps)
  also have "\<dots> \<le> of_int a / of_int b"
    using bitlen_bounds [OF a] bitlen_bounds [OF b] a b
    by (intro frac_le) (simp_all add: pow2_pos less_imp_le)
  finally have lo: "pow2 (d - 1) \<le> q" by (simp add: q)
  have "of_int a / of_int b < pow2 (bitlen a) / pow2 (bitlen b - 1)"
    using bitlen_bounds [OF a] bitlen_bounds [OF b] a b
    by (intro frac_less) (simp_all add: pow2_pos less_imp_le)
  also have "\<dots> = pow2 (d + 1)"
    by (simp add: d_def flip: pow2_diff) (simp add: algebra_simps)
  finally have hi: "q < pow2 (d + 1)" by (simp add: q)
  show "pow2 (exponent q) \<le> q" using lo by (simp add: e)
  show "q < pow2 (exponent q + 1)" using hi by (simp add: e not_le)
qed

lemma round_half_even_of_int: "round_half_even (of_int k) = k"
  by (simp add: round_half_even_def)

lemma round_half_even_ge_floor: "\<lfloor>m\<rfloor> \<le> round_half_even m"
  by (simp add: round_half_even_def Let_def)

lemma round_half_even_ge: "of_int k \<le> m \<Longrightarrow> k \<le> round_half_even m"
proof -
  assume "of_int k \<le> m"
  then have "k \<le> \<lfloor>m\<rfloor>" by (simp add: le_floor_iff)
  also have "\<dots> \<le> round_half_even m" by (rule round_half_even_ge_floor)
  finally show ?thesis .
qed

lemma round64_pos_form:
  "round64_pos q = PosInf
   \<or> round64_pos q =
       Fin (of_int (round_half_even (q / pow2 (max (exponent q) (- 1022) - 52)))
            * pow2 (max (exponent q) (- 1022) - 52))"
  by (simp add: round64_pos_def Let_def)

lemma round64_pos_cases:
  obtains "round64_pos q = PosInf"
  | e where "e = max (exponent q) (- 1022)"
      and "round64_pos q = Fin (of_int (round_half_even (q / pow2 (e - 52))) * pow2 (e - 52))"
  using round64_pos_form [of q] by blast

lemma on_grid_0: "on_grid 0"
  by (simp add: on_grid_def)

lemma on_grid_minus: "on_grid (- v) = on_grid v"
  by (simp add: on_grid_def)

lemma on_grid_diff: "on_grid a \<Longrightarrow> on_grid b \<Longrightarrow> on_grid (a - b)"
  by (simp add: on_grid_def left_diff_distrib)

lemma on_grid_pos: "on_grid v \<Longrightarrow> 0 < v \<Longrightarrow> pow2 (- 1074) \<le> v"
proof -
  assume g: "on_grid v" and p: "0 < v"
  from g obtain k :: int where k: "v * pow2 1074 = of_int k"
    by (auto simp: on_grid_def elim: Ints_cases)
  have "0 < v * pow2 1074" using p by (simp add: pow2_pos)
  then have "1 \<le> k" by (simp add: k)
  then have "(1::rat) \<le> v * pow2 1074" by (simp add: k)
  moreover have "pow2 (- 1074) * pow2 1074 = 1"
    by (simp flip: pow2_add add: pow2_0)
  ultimately have "pow2 (- 1074) * pow2 1074 \<le> v * pow2 1074" by simp
  then show ?thesis by (simp add: pow2_pos)
qed

lemma round64_pos_grid: "round64_pos q = Fin v \<Longrightarrow> on_grid v"
proof (cases q rule: round64_pos_cases)
  case 1
  assume "round64_pos q = Fin v"
  with 1 show ?thesis by simp
next
  case (2 e)
  assume "round64_pos q = Fin v"
  with 2 have v: "v = of_int (round_half_even (q / pow2 (e - 52))) * pow2 (e - 52)" by simp
  have "0 \<le> e + 1022" using 2(1) by simp
  then have "pow2 (e + 1022) \<in> \<int>" by (rule pow2_Ints)
  moreover have "pow2 (e - 52) * pow2 1074 = pow2 (e + 1022)"
    by (simp flip: pow2_add) (simp add: algebra_simps)
  ultimately have "of_int (round_half_even (q / pow2 (e - 52))) * (pow2 (e - 52) * pow2 1074) \<in> \<int>"
    by simp
  then show ?thesis by (simp add: v on_grid_def mult.assoc)
qed

lemma round64_grid: "round64 q = Fin v \<Longrightarrow> on_grid v"
proof -
  assume r: "round64 q = Fin v"
  consider "q = 0" | "0 < q" | "q < 0" by linarith
  then show ?thesis
  proof cases
    case 1
    with r show ?thesis by (simp add: round64_def on_grid_0)
  next
    case 2
    with r show ?thesis by (simp add: round64_def round64_pos_grid)
  next
    case 3
    with r have "num_neg (round64_pos (- q)) = Fin v" by (simp add: round64_def)
    then have "round64_pos (- q) = Fin (- v)"
      by (cases "round64_pos (- q)") simp_all
    then have "on_grid (- v)" by (rule round64_pos_grid)
    then show ?thesis by (simp add: on_grid_minus)
  qed
qed

lemma round64_not_NaN: "round64 q \<noteq> NaN"
proof -
  have p: "round64_pos x \<noteq> NaN" for x
    by (cases x rule: round64_pos_cases) simp_all
  then have "num_neg (round64_pos x) \<noteq> NaN" for x
    by (cases "round64_pos x") simp_all
  with p show ?thesis by (simp add: round64_def)
qed

lemma round64_pos_sign:
  assumes "0 < q"
  shows "round64_pos q = PosInf \<or> (\<exists>v. 0 \<le> v \<and> round64_pos q = Fin v)"
proof (cases q rule: round64_pos_cases)
  case 1
  then show ?thesis by simp
next
  case (2 e)
  have "0 \<le> q / pow2 (e - 52)" using assms by (simp add: pow2_pos less_imp_le)
  then have "0 \<le> round_half_even (q / pow2 (e - 52))"
    using round_half_even_ge [of 0] by simp
  then have "0 \<le> of_int (round_half_even (q / pow2 (e - 52))) * pow2 (e - 52)"
    by (simp add: pow2_pos less_imp_le)
  with 2 show ?thesis by simp
qed

lemma round64_nonpos: "q \<le> 0 \<Longrightarrow> \<not> is_positive (round64 q)"
proof -
  assume "q \<le> 0"
  then consider "q = 0" | "q < 0" by linarith
  then show ?thesis
  proof cases
    case 1
    then show ?thesis by (simp add: round64_def is_positive_def)
  next
    case 2
    then have "0 < - q" by simp
    from round64_pos_sign [OF this] 2 show ?thesis
      by (auto simp: round64_def is_positive_def)
  qed
qed

lemma round64_nonneg: "0 \<le> q \<Longrightarrow> round64 q = PosInf \<or> (\<exists>v. 0 \<le> v \<and> round64 q = Fin v)"
  using round64_pos_sign [of q] by (cases "q = 0") (auto simp: round64_def)

lemma round64_positive:
  assumes "0 < q" and "on_grid q"
  shows "is_positive (round64 q)"
proof (cases q rule: round64_pos_cases)
  case 1
  with assms show ?thesis by (simp add: round64_def is_positive_def)
next
  case (2 e)
  have ulp: "pow2 (e - 52) \<le> q"
  proof (cases "- 1022 \<le> exponent q")
    case True
    with 2(1) have "e = exponent q" by simp
    then have "pow2 (e - 52) \<le> pow2 (exponent q)" by (simp add: pow2_mono)
    with exponent_bounds(1) [OF assms(1)] show ?thesis by simp
  next
    case False
    with 2(1) have "e = - 1022" by simp
    then have "pow2 (e - 52) = pow2 (- 1074)" by simp
    with on_grid_pos [OF assms(2) assms(1)] show ?thesis by simp
  qed
  then have "of_int 1 \<le> q / pow2 (e - 52)" by (simp add: pow2_pos le_divide_eq)
  then have "1 \<le> round_half_even (q / pow2 (e - 52))" by (rule round_half_even_ge)
  then have "0 < of_int (round_half_even (q / pow2 (e - 52))) * pow2 (e - 52)"
    by (simp add: pow2_pos)
  with 2 assms show ?thesis by (simp add: round64_def is_positive_def)
qed

lemma round64_pos_of_int:
  assumes "0 < n" and "n < 2 ^ 53"
  shows "round64_pos (of_int n) = Fin (of_int n)"
proof -
  have "pow2 (exponent (of_int n)) \<le> of_int n"
    using assms(1) by (intro exponent_bounds) simp
  also have "(of_int n :: rat) < of_int (2 ^ 53)"
    using assms(2) by (simp only: of_int_less_iff)
  also have "(of_int (2 ^ 53) :: rat) = pow2 53" by (simp add: pow2_def)
  finally have "exponent (of_int n) < 53" by (rule pow2_less_imp)
  define e where "e = max (exponent (of_int n)) (- 1022)"
  have e: "e \<le> 52" "- 1022 \<le> e"
    using \<open>exponent (of_int n) < 53\<close> by (simp_all add: e_def)
  define j where "j = nat (52 - e)"
  have ulp: "pow2 (e - 52) = 1 / of_int (2 ^ j)"
  proof -
    have "pow2 (e - 52) * pow2 (int j) = pow2 0"
      using e by (simp flip: pow2_add add: j_def)
    then show ?thesis
      by (simp add: pow2_nat pow2_0 field_simps del: of_int_power)
  qed
  have m: "of_int n / pow2 (e - 52) = of_int (n * 2 ^ j)"
    by (simp add: ulp del: of_int_power)
  have r: "round_half_even (of_int n / pow2 (e - 52)) = n * 2 ^ j"
    by (simp only: m round_half_even_of_int)
  have v: "of_int (n * 2 ^ j) * pow2 (e - 52) = (of_int n :: rat)"
    by (simp add: ulp del: of_int_power)
  show ?thesis
    using e by (simp add: round64_pos_def Let_def e_def [symmetric] r v del: of_int_mult of_int_power)
qed

lemma round64_of_int:
  assumes "\<bar>n\<bar> < 2 ^ 53"
  shows "round64 (of_int n) = Fin (of_int n)"
proof -
  consider "n = 0" | "0 < n" | "n < 0" by linarith
  then show ?thesis
  proof cases
    case 1
    then show ?thesis by (simp add: round64_def)
  next
    case 2
    with assms show ?thesis by (simp add: round64_def round64_pos_of_int)
  next
    case 3
    with assms have "round64_pos (of_int (- n)) = Fin (of_int (- n))"
      by (intro round64_pos_of_int) simp_all
    with 3 show ?thesis by (simp add: round64_def)
  qed
qed

subsection \<open>Numbers\<close>

lemma num_sub_Fin: "num_sub (Fin a) (Fin b) = round64 (a - b)"
  by (simp add: num_sub_def)

lemma is_double_round64: "is_double (round64 q)"
  by (cases "round64 q") (simp_all add: is_double_def round64_grid)

lemma is_double_num_add: "is_double (num_add a b)"
  by (cases a; cases b) (simp_all add: is_double_round64, simp_all add: is_double_def)

lemma is_double_inf_times: "is_double (inf_times i b)" if "i = PosInf \<or> i = NegInf"
  using that by (auto simp: inf_times_def is_double_def)

lemma is_double_num_mul: "is_double (num_mul a b)"
  by (cases a; cases b)
    (simp_all add: is_double_round64 is_double_inf_times, simp_all add: is_double_def)

lemma is_double_parseTime: "is_double (parseTime s)"
  by (simp add: parseTime_def Let_def is_double_num_mul) (simp add: is_double_def on_grid_def)

lemma num_le_trans: "num_le a b \<Longrightarrow> num_le b c \<Longrightarrow> num_le a c"
  by (cases a; cases b; cases c) simp_all

lemma num_le_refl: "a \<noteq> NaN \<Longrightarrow> num_le a a"
  by (cases a) simp_all

lemma num_le_not_NaN: "num_le a b \<Longrightarrow> a \<noteq> NaN \<and> b \<noteq> NaN"
  by (cases a; cases b) simp_all

lemma positive_sub: "is_positive (num_sub a b) \<Longrightarrow> num_le b a"
proof (cases a; cases b)
  fix x y assume "a = Fin x" "b = Fin y" and p: "is_positive (num_sub a b)"
  then have "is_positive (round64 (x - y))" by (simp add: num_sub_Fin)
  then have "\<not> x - y \<le> 0" using round64_nonpos by blast
  then show "num_le b a" using \<open>a = Fin x\<close> \<open>b = Fin y\<close> by simp
qed (auto simp: is_positive_def num_sub_def)

lemma not_positive_sub:
  assumes "a \<noteq> NaN" and "b \<noteq> NaN" and "is_double a" and "is_double b"
  shows "\<not> is_positive (num_sub a b) \<longleftrightarrow> num_le a b"
proof (cases a; cases b)
  fix x y assume ab: "a = Fin x" "b = Fin y"
  with assms have g: "on_grid (x - y)" by (simp add: is_double_def on_grid_diff)
  show ?thesis
  proof (cases "x \<le> y")
    case True
    then have "\<not> is_positive (round64 (x - y))" by (intro round64_nonpos) simp
    with True ab show ?thesis by (simp add: num_sub_Fin)
  next
    case False
    then have "is_positive (round64 (x - y))" using g by (intro round64_positive) simp_all
    with False ab show ?thesis by (simp add: num_sub_Fin)
  qed
qed (use assms in \<open>auto simp: is_positive_def num_sub_def\<close>)

subsection \<open>Reading digits\<close>

lemma foldl_digits_bounds:
  assumes "\<forall>c \<in> set z. is_digit R c" and "0 \<le> acc"
  shows "0 \<le> foldl (\<lambda>acc c. acc * int R + (case digit_val c of None \<Rightarrow> 0 | Some d \<Rightarrow> int d)) acc z
       \<and> foldl (\<lambda>acc c. acc * int R + (case digit_val c of None \<Rightarrow> 0 | Some d \<Rightarrow> int d)) acc z
           < (acc + 1) * int R ^ length z"
  using assms
proof (induction z arbitrary: acc)
  case Nil
  then show ?case by simp
next
  case (Cons c z)
  let ?f = "\<lambda>acc c. acc * int R + (case digit_val c of None \<Rightarrow> 0 | Some d \<Rightarrow> int d)"
  from Cons.prems obtain d where d: "digit_val c = Some d" "d < R"
    by (auto simp: is_digit_def split: option.splits)
  have acc': "0 \<le> acc * int R + int d"
    using Cons.prems(2) by simp
  from Cons.IH [OF _ acc'] Cons.prems(1)
  have ih: "0 \<le> foldl ?f (acc * int R + int d) z"
    "foldl ?f (acc * int R + int d) z < (acc * int R + int d + 1) * int R ^ length z"
    by simp_all
  have "acc * int R + int d + 1 \<le> (acc + 1) * int R"
    using d(2) by (simp add: algebra_simps)
  then have "(acc * int R + int d + 1) * int R ^ length z \<le> (acc + 1) * int R * int R ^ length z"
    by (intro mult_right_mono) simp_all
  with ih show ?case
    by (simp add: d(1) mult.assoc)
qed

lemma digits_value_bounds:
  assumes "\<forall>c \<in> set z. is_digit R c"
  shows "0 \<le> digits_value R z" and "digits_value R z < int R ^ length z"
  using foldl_digits_bounds [OF assms, of 0] by (simp_all add: digits_value_def)

lemma length_take_sign: "length (snd (take_sign s)) \<le> length s"
  by (simp add: take_sign_def split: list.split)

text \<open>What \<open>parseColor\<close> prints: \<open>parseInt\<close> of at most two characters in radix 16.\<close>

lemma parseInt_short:
  assumes "length s \<le> 2"
  shows "parseInt s 16 = NaN \<or> (\<exists>k. \<bar>k\<bar> < 256 \<and> parseInt s 16 = Fin (of_int k))"
proof -
  obtain neg s1 where ts: "take_sign (trimStart s) = (neg, s1)"
    by (cases "take_sign (trimStart s)")
  define s2 where "s2 = (if startsWith s1 ''0x'' \<or> startsWith s1 ''0X'' then drop 2 s1 else s1)"
  define z where "z = takeWhile (is_digit 16) s2"
  have "length s1 \<le> length (trimStart s)"
    using length_take_sign [of "trimStart s"] by (simp add: ts)
  also have "\<dots> \<le> length s"
    by (simp add: trimStart_def length_dropWhile_le)
  finally have "length s2 \<le> 2"
    using assms by (simp add: s2_def)
  then have lz: "length z \<le> 2"
    using length_takeWhile_le [of "is_digit 16" s2] by (simp add: z_def)
  have dz: "\<forall>c \<in> set z. is_digit 16 c"
    by (auto simp: z_def dest: set_takeWhileD)
  have p: "parseInt s 16 =
      (if z = [] then NaN else round64 (of_int ((if neg then - 1 else 1) * digits_value 16 z)))"
    by (simp add: parseInt_def ts s2_def z_def Let_def)
  have "(16::int) ^ length z \<le> 16 ^ 2"
    using lz by (intro power_increasing) simp_all
  with digits_value_bounds [OF dz]
  have b: "0 \<le> digits_value 16 z" "digits_value 16 z < 256"
    by simp_all
  define k where "k = (if neg then - 1 else 1) * digits_value 16 z"
  have k: "\<bar>k\<bar> < 256" using b by (simp add: k_def)
  then have "round64 (of_int k) = Fin (of_int k)"
    by (intro round64_of_int) simp
  with p k show ?thesis
    by (auto simp: k_def)
qed

subsection \<open>The time codec\<close>

lemma num_mul_int:
  "\<bar>a * b\<bar> < 2 ^ 53 \<Longrightarrow> num_mul (Fin (of_int a)) (Fin (of_int b)) = Fin (of_int (a * b))"
  using round64_of_int [of "a * b"] by simp

lemma num_add_int:
  "\<bar>a + b\<bar> < 2 ^ 53 \<Longrightarrow> num_add (Fin (of_int a)) (Fin (of_int b)) = Fin (of_int (a + b))"
  using round64_of_int [of "a + b"] by simp

text \<open>
  For whole, non-negative hours, minutes and seconds below the range where binary64 stops
  holding every integer, each step of the sum is exact.
\<close>

lemma time_value_whole:
  assumes "0 \<le> h" and "0 \<le> m" and "0 \<le> k" and "(h * 3600 + m * 60 + k) * 1000 < 2 ^ 53"
  shows "num_mul (num_add (num_add (num_mul (Fin (of_int h)) (Fin 3600))
            (num_mul (Fin (of_int m)) (Fin 60))) (Fin (of_int k))) (Fin 1000)
       = Fin (of_int (h * 3600000 + m * 60000 + k * 1000))"
proof -
  have b: "\<bar>h * 3600\<bar> < 2 ^ 53" "\<bar>m * 60\<bar> < 2 ^ 53" "\<bar>h * 3600 + m * 60\<bar> < 2 ^ 53"
    "\<bar>h * 3600 + m * 60 + k\<bar> < 2 ^ 53" "\<bar>(h * 3600 + m * 60 + k) * 1000\<bar> < 2 ^ 53"
    using assms by simp_all
  have "num_mul (Fin (of_int h)) (Fin (of_int 3600)) = Fin (of_int (h * 3600))"
    using b(1) by (rule num_mul_int)
  moreover have "num_mul (Fin (of_int m)) (Fin (of_int 60)) = Fin (of_int (m * 60))"
    using b(2) by (rule num_mul_int)
  moreover have "num_add (Fin (of_int (h * 3600))) (Fin (of_int (m * 60)))
      = Fin (of_int (h * 3600 + m * 60))"
    using b(3) by (rule num_add_int)
  moreover have "num_add (Fin (of_int (h * 3600 + m * 60))) (Fin (of_int k))
      = Fin (of_int (h * 3600 + m * 60 + k))"
    using b(4) by (rule num_add_int)
  moreover have "num_mul (Fin (of_int (h * 3600 + m * 60 + k))) (Fin (of_int 1000))
      = Fin (of_int ((h * 3600 + m * 60 + k) * 1000))"
    using b(5) by (rule num_mul_int)
  moreover have "(h * 3600 + m * 60 + k) * 1000 = h * 3600000 + m * 60000 + k * 1000"
    by (simp add: algebra_simps)
  ultimately show ?thesis
    by (simp only: of_int_numeral)
qed

lemma parseTime_fields:
  assumes "split CHR '':'' s = [a, b, c]"
  shows "parseTime s =
     num_mul (num_add (num_add
         (num_mul (num_or (parseInt a 0) (Fin 0)) (Fin 3600))
         (num_mul (num_or (parseInt b 0) (Fin 0)) (Fin 60)))
         (num_or (parseFloat c) (Fin 0))) (Fin 1000)"
  using assms by (simp add: parseTime_def Let_def at_index_def ToString_def)

lemma num_or_zero: "num_or x (Fin 0) = (if x = NaN then Fin 0 else x)"
  by (simp add: num_or_def)

text \<open>
  C3. \<open>parseTime\<close> is a total function. A text that does not split into exactly three
  fields at the colons gives 0, as \<open>12:34\<close> does. In a text of three fields, an hours or
  minutes field that \<open>parseInt\<close> cannot read and a seconds field that \<open>parseFloat\<close> cannot
  read are each taken as zero in \<open>(hours * 3600 + minutes * 60 + seconds) * 1000\<close>; when
  none of the three can be read the result is 0.
\<close>

theorem parseTime_lenient:
  "(length (split CHR '':'' s) \<noteq> 3 \<longrightarrow> parseTime s = Fin 0)
   \<and> parseTime ''12:34'' = Fin 0
   \<and> (split CHR '':'' s = [a, b, c] \<longrightarrow>
        parseTime s =
          num_mul (num_add (num_add
              (num_mul (if parseInt a 0 = NaN then Fin 0 else parseInt a 0) (Fin 3600))
              (num_mul (if parseInt b 0 = NaN then Fin 0 else parseInt b 0) (Fin 60)))
              (if parseFloat c = NaN then Fin 0 else parseFloat c)) (Fin 1000))
   \<and> (split CHR '':'' s = [a, b, c]
        \<and> parseInt a 0 = NaN \<and> parseInt b 0 = NaN \<and> parseFloat c = NaN
        \<longrightarrow> parseTime s = Fin 0)"
proof -
  have short: "parseTime ''12:34'' = Fin 0" by code_simp
  have other: "parseTime s = Fin 0" if "length (split CHR '':'' s) \<noteq> 3"
    using that by (simp add: parseTime_def)
  have three: "parseTime s =
          num_mul (num_add (num_add
              (num_mul (if parseInt a 0 = NaN then Fin 0 else parseInt a 0) (Fin 3600))
              (num_mul (if parseInt b 0 = NaN then Fin 0 else parseInt b 0) (Fin 60)))
              (if parseFloat c = NaN then Fin 0 else parseFloat c)) (Fin 1000)"
    if "split CHR '':'' s = [a, b, c]"
    using parseTime_fields [OF that] by (simp only: num_or_zero)
  have none: "parseTime s = Fin 0"
    if "split CHR '':'' s = [a, b, c]" "parseInt a 0 = NaN" "parseInt b 0 = NaN"
      "parseFloat c = NaN"
    using three [OF that(1)] that(2-4) by (simp add: round64_def)
  show ?thesis
    using short other three none by blast
qed

theorem parseTime_lenient_witness:
  "parseTime ''x:02:zz'' = Fin 120000 \<and> parseTime ''1:2:3:4'' = Fin 0
   \<and> parseTime ''x:y:z'' = Fin 0"
proof -
  have sp: "split CHR '':'' ''x:02:zz'' = [''x'', ''02'', ''zz'']" by code_simp
  have f: "parseInt ''x'' 0 = NaN" "parseInt ''02'' 0 = Fin 2" "parseFloat ''zz'' = NaN"
    by code_simp+
  have v: "num_mul (num_add (num_add (num_mul (Fin 0) (Fin 3600)) (num_mul (Fin 2) (Fin 60)))
      (Fin 0)) (Fin 1000) = Fin 120000"
    by code_simp
  have len: "length (split CHR '':'' ''1:2:3:4'') \<noteq> 3" by code_simp
  have sp2: "split CHR '':'' ''x:y:z'' = [''x'', ''y'', ''z'']" by code_simp
  have f2: "parseInt ''y'' 0 = NaN" "parseFloat ''z'' = NaN" by code_simp+
  have "parseTime ''x:02:zz'' = Fin 120000"
    using parseTime_lenient [of "''x:02:zz''" "''x''" "''02''" "''zz''"] sp f v by simp
  moreover have "parseTime ''1:2:3:4'' = Fin 0"
    using parseTime_lenient [of "''1:2:3:4''" a b c] len by blast
  moreover have "parseTime ''x:y:z'' = Fin 0"
    using parseTime_lenient [of "''x:y:z''" "''x''" "''y''" "''z''"] sp2 f(1) f2 by blast
  ultimately show ?thesis by blast
qed

text \<open>
  C2, as the code has it. For a text of three fields whose hours and minutes \<open>parseInt\<close>
  reads as \<open>H\<close> and \<open>M\<close> and whose seconds \<open>parseFloat\<close> reads as the finite \<open>S\<close>,
  \<open>parseTime\<close> returns \<open>(H * 3600 + M * 60 + S) * 1000\<close> computed in binary64 as it is
  written, with no rounding to an integer. For whole, non-negative \<open>H\<close>, \<open>M\<close> and \<open>S\<close>
  with a result below \<open>2^53\<close> this is exactly the integer of the specification, and
  \<open>1:02:03.50\<close> gives 3723500; with a fraction in the seconds the result need not be an
  integer: \<open>0:00:02.01\<close> gives 2009.9999999999998.
\<close>

theorem parseTime_value:
  assumes "split CHR '':'' s = [a, b, c]"
    and "parseInt a 0 = Fin H" and "parseInt b 0 = Fin M" and "parseFloat c = Fin S"
  shows "parseTime s =
           num_mul (num_add (num_add (num_mul (Fin H) (Fin 3600)) (num_mul (Fin M) (Fin 60)))
             (Fin S)) (Fin 1000)
       \<and> (H = of_int h \<and> M = of_int m \<and> S = of_int k \<and> 0 \<le> h \<and> 0 \<le> m \<and> 0 \<le> k
            \<and> (h * 3600 + m * 60 + k) * 1000 < 2 ^ 53
          \<longrightarrow> parseTime s = Fin (of_int (h * 3600000 + m * 60000 + k * 1000))
            \<and> parseTime s = spec_parseTimestamp h m S)
       \<and> parseTime ''1:02:03.50'' = Fin 3723500
       \<and> parseTime ''0:00:02.01'' = Fin (8840073487319039 / 4398046511104)"
proof -
  have v: "parseTime s =
           num_mul (num_add (num_add (num_mul (Fin H) (Fin 3600)) (num_mul (Fin M) (Fin 60)))
             (Fin S)) (Fin 1000)"
    using parseTime_fields [OF assms(1)] assms(2-4)
    by (auto simp: num_or_def)
  have w: "parseTime s = Fin (of_int (h * 3600000 + m * 60000 + k * 1000))
      \<and> parseTime s = spec_parseTimestamp h m S"
    if "H = of_int h" "M = of_int m" "S = of_int k" "0 \<le> h" "0 \<le> m" "0 \<le> k"
      "(h * 3600 + m * 60 + k) * 1000 < 2 ^ 53"
  proof -
    have "parseTime s = Fin (of_int (h * 3600000 + m * 60000 + k * 1000))"
      using v that(1-3) time_value_whole [OF that(4-7)] by simp
    moreover have "spec_parseTimestamp h m S
        = Fin (of_int (round (of_int (h * 3600000 + m * 60000 + k * 1000) :: rat)))"
      by (simp add: spec_parseTimestamp_def that(3))
    ultimately show ?thesis
      by (simp only: round_of_int)
  qed
  have e: "parseTime ''1:02:03.50'' = Fin 3723500" by code_simp
  have f: "parseTime ''0:00:02.01'' = Fin (8840073487319039 / 4398046511104)" by code_simp
  show ?thesis using v w e f by blast
qed

theorem parseTime_value_witness:
  "parseTime ''0:01:02'' = Fin 62000 \<and> parseTime ''0:01:02'' = spec_parseTimestamp 0 1 2"
proof -
  have sp: "split CHR '':'' ''0:01:02'' = [''0'', ''01'', ''02'']" by code_simp
  have f: "parseInt ''0'' 0 = Fin 0" "parseInt ''01'' 0 = Fin 1" "parseFloat ''02'' = Fin 2"
    by code_simp+
  have h: "(0::rat) = of_int 0 \<and> (1::rat) = of_int 1 \<and> (2::rat) = of_int 2
      \<and> (0::int) \<le> 0 \<and> (0::int) \<le> 1 \<and> (0::int) \<le> 2
      \<and> ((0::int) * 3600 + 1 * 60 + 2) * 1000 < 2 ^ 53"
    by simp
  have r: "parseTime ''0:01:02'' = Fin (of_int (0 * 3600000 + 1 * 60000 + 2 * 1000))"
    and t: "parseTime ''0:01:02'' = spec_parseTimestamp 0 1 2"
    using parseTime_value [OF sp f, of 0 1 2] h by blast+
  from r have "parseTime ''0:01:02'' = Fin 62000" by simp
  with t show ?thesis by blast
qed

text \<open>
  The claim C2 as stated fails: the seconds field \<open>0.0625\<close> gives 62.5 milliseconds, not
  the rounded integer 63.
\<close>

theorem parseTime_unrounded_counterexample:
  "split CHR '':'' ''0:00:0.0625'' = [''0'', ''00'', ''0.0625'']
   \<and> parseInt ''0'' 0 = Fin 0 \<and> parseInt ''00'' 0 = Fin 0
   \<and> parseFloat ''0.0625'' = Fin (1 / 16)
   \<and> parseTime ''0:00:0.0625'' = Fin (125 / 2)
   \<and> spec_parseTimestamp 0 0 (1 / 16) = Fin 63
   \<and> parseTime ''0:00:0.0625'' \<noteq> spec_parseTimestamp 0 0 (1 / 16)"
proof -
  have a: "split CHR '':'' ''0:00:0.0625'' = [''0'', ''00'', ''0.0625'']" by code_simp
  have b: "parseInt ''0'' 0 = Fin 0" "parseInt ''00'' 0 = Fin 0" by code_simp+
  have c: "parseFloat ''0.0625'' = Fin (1 / 16)" by code_simp
  have d: "parseTime ''0:00:0.0625'' = Fin (125 / 2)" by code_simp
  have e: "spec_parseTimestamp 0 0 (1 / 16) = Fin 63"
    by (simp add: spec_parseTimestamp_def round_def)
  show ?thesis using a b c d e by simp
qed

subsection \<open>Timestamps without a minus sign\<close>

lemma nonneg_round64: "0 \<le> q \<Longrightarrow> nonneg (round64 q)"
  using round64_nonneg [of q] by (auto simp: nonneg_def)

lemma nonneg_num_or: "x = NaN \<or> nonneg x \<Longrightarrow> nonneg (num_or x (Fin 0))"
  by (auto simp: num_or_def nonneg_def)

lemma nonneg_num_mul:
  assumes "nonneg x" and "0 < c"
  shows "nonneg (num_mul x (Fin c))"
proof (cases x)
  case (Fin v)
  with assms have "0 \<le> v * c" by (simp add: nonneg_def)
  then show ?thesis by (simp add: Fin nonneg_round64)
qed (use assms in \<open>simp_all add: nonneg_def inf_times_def\<close>)

lemma nonneg_num_add:
  assumes "nonneg x" and "nonneg y"
  shows "nonneg (num_add x y)"
proof (cases x; cases y)
  fix a b assume ab: "x = Fin a" "y = Fin b"
  with assms have "0 \<le> a + b" by (simp add: nonneg_def)
  then show ?thesis by (simp add: ab nonneg_round64)
qed (use assms in \<open>simp_all add: nonneg_def\<close>)

lemma nonneg_not_NaN: "nonneg x \<Longrightarrow> x \<noteq> NaN"
  by (auto simp: nonneg_def)

lemma take_sign_no_minus: "CHR ''-'' \<notin> set s \<Longrightarrow> fst (take_sign s) = False"
  by (auto simp: take_sign_def split: list.split)

lemma set_trimStart: "set (trimStart s) \<subseteq> set s"
  by (auto simp: trimStart_def dest: set_dropWhileD)

lemma parseInt_no_minus:
  assumes "CHR ''-'' \<notin> set s"
  shows "parseInt s r = NaN \<or> nonneg (parseInt s r)"
proof -
  obtain neg s1 where ts: "take_sign (trimStart s) = (neg, s1)"
    by (cases "take_sign (trimStart s)")
  have "CHR ''-'' \<notin> set (trimStart s)" using assms set_trimStart by blast
  then have neg: "neg = False" using take_sign_no_minus [of "trimStart s"] by (simp add: ts)
  have "nonneg (round64 (of_int (digits_value R (takeWhile (is_digit R) t))))" for R t
    by (intro nonneg_round64) (auto intro: digits_value_bounds(1) dest: set_takeWhileD)
  then show ?thesis
    by (simp add: parseInt_def ts neg Let_def)
qed

lemma pow10_pos: "0 < pow10 e"
  by (simp add: pow10_def)

lemma parseFloat_no_minus:
  assumes "CHR ''-'' \<notin> set s"
  shows "parseFloat s = NaN \<or> nonneg (parseFloat s)"
proof -
  obtain neg u where ts: "take_sign (trimStart s) = (neg, u)"
    by (cases "take_sign (trimStart s)")
  have "CHR ''-'' \<notin> set (trimStart s)" using assms set_trimStart by blast
  then have neg: "neg = False" using take_sign_no_minus [of "trimStart s"] by (simp add: ts)
  have d: "0 \<le> digits_value 10 (takeWhile (is_digit 10) t)" for t
    by (auto intro: digits_value_bounds(1) dest: set_takeWhileD)
  have d0: "digits_value 10 [] = 0"
    by (simp add: digits_value_def)
  have r: "nonneg (round64 ((of_int x + of_int y / 10 ^ n) * pow10 e))"
    if "0 \<le> x" "0 \<le> y" for x y :: int and n e
    using that pow10_pos [of e]
    by (intro nonneg_round64 mult_nonneg_nonneg add_nonneg_nonneg divide_nonneg_nonneg) simp_all
  have i: "nonneg PosInf" by (simp add: nonneg_def)
  have r0: "nonneg (round64 (of_int (digits_value 10 (takeWhile (is_digit 10) t)) * pow10 e))"
    for t e
    using r [OF d [of t] order_refl, of 0 e] by simp
  show ?thesis
    using r [OF d d] r0 i
    by (simp add: parseFloat_def ts neg Let_def d0)
qed

lemma set_split: "\<forall>p \<in> set (split c s). set p \<subseteq> set s"
proof (induction s)
  case Nil
  then show ?case by simp
next
  case (Cons x xs)
  show ?case
  proof (cases "split c xs")
    case Nil
    then show ?thesis by simp
  next
    case (Cons w ws)
    with Cons.IH have "set w \<subseteq> set xs" "\<forall>p \<in> set ws. set p \<subseteq> set xs"
      by simp_all
    then show ?thesis
      by (auto simp: Cons)
  qed
qed

text \<open>
  A timestamp without a minus sign never gives \<open>NaN\<close>: every term of the sum is zero or
  more, so the two infinities never meet.
\<close>

lemma parseTime_no_minus:
  assumes "CHR ''-'' \<notin> set s"
  shows "parseTime s \<noteq> NaN"
proof (cases "split CHR '':'' s")
  case Nil
  then show ?thesis by (simp add: parseTime_def)
next
  case (Cons a r)
  show ?thesis
  proof (cases "\<exists>b c. r = [b, c]")
    case False
    then have "length (split CHR '':'' s) \<noteq> 3"
      by (cases r; cases "tl r"; cases "tl (tl r)") (auto simp: Cons)
    then show ?thesis by (simp add: parseTime_def)
  next
    case True
    then obtain b c where sp: "split CHR '':'' s = [a, b, c]" by (auto simp: Cons)
    then have "set a \<subseteq> set s" "set b \<subseteq> set s" "set c \<subseteq> set s"
      using set_split [of "CHR '':''" s] by simp_all
    with assms have m: "CHR ''-'' \<notin> set a" "CHR ''-'' \<notin> set b" "CHR ''-'' \<notin> set c"
      by auto
    have "nonneg (num_or (parseInt a 0) (Fin 0))" "nonneg (num_or (parseInt b 0) (Fin 0))"
      "nonneg (num_or (parseFloat c) (Fin 0))"
      using m by (simp_all add: nonneg_num_or parseInt_no_minus parseFloat_no_minus)
    then have "nonneg (parseTime s)"
      by (simp add: parseTime_fields [OF sp] nonneg_num_mul nonneg_num_add)
    then show ?thesis by (rule nonneg_not_NaN)
  qed
qed

subsection \<open>The sort\<close>

lemma set_insert_sorted: "set (insert_sorted cmp x ys) = insert x (set ys)"
  by (induction ys) auto

lemma mset_insert_sorted: "mset (insert_sorted cmp x ys) = add_mset x (mset ys)"
  by (induction ys) auto

lemma set_array_sort: "set (array_sort cmp xs) = set xs"
  by (induction xs) (simp_all add: array_sort_def set_insert_sorted)

lemma mset_array_sort: "mset (array_sort cmp xs) = mset xs"
  by (induction xs) (simp_all add: array_sort_def mset_insert_sorted)

lemma sorted_insert_sorted:
  assumes "sorted_wrt (\<lambda>a b. num_le (key a) (key b)) ys"
    and "key x \<noteq> NaN" and "is_double (key x)"
    and "\<forall>y \<in> set ys. key y \<noteq> NaN \<and> is_double (key y)"
  shows "sorted_wrt (\<lambda>a b. num_le (key a) (key b))
           (insert_sorted (\<lambda>a b. num_sub (key a) (key b)) x ys)"
  using assms
proof (induction ys)
  case Nil
  then show ?case by simp
next
  case (Cons y ys)
  show ?case
  proof (cases "is_positive (num_sub (key x) (key y))")
    case True
    then have yx: "num_le (key y) (key x)" by (rule positive_sub)
    from Cons have "sorted_wrt (\<lambda>a b. num_le (key a) (key b))
        (insert_sorted (\<lambda>a b. num_sub (key a) (key b)) x ys)"
      by simp
    with True yx Cons.prems show ?thesis
      by (auto simp: set_insert_sorted)
  next
    case False
    with Cons.prems have xy: "num_le (key x) (key y)"
      by (simp add: not_positive_sub)
    with False Cons.prems show ?thesis
      by (auto intro: num_le_trans)
  qed
qed

lemma sorted_array_sort:
  assumes "\<forall>x \<in> set xs. key x \<noteq> NaN \<and> is_double (key x)"
  shows "sorted_wrt (\<lambda>a b. num_le (key a) (key b))
           (array_sort (\<lambda>a b. num_sub (key a) (key b)) xs)"
  using assms
proof (induction xs)
  case Nil
  then show ?case by (simp add: array_sort_def)
next
  case (Cons x xs)
  let ?rest = "array_sort (\<lambda>a b. num_sub (key a) (key b)) xs"
  from Cons have "sorted_wrt (\<lambda>a b. num_le (key a) (key b)) ?rest"
    by simp
  moreover have "\<forall>y \<in> set ?rest. key y \<noteq> NaN \<and> is_double (key y)"
    using Cons.prems by (simp add: set_array_sort)
  ultimately have "sorted_wrt (\<lambda>a b. num_le (key a) (key b))
      (insert_sorted (\<lambda>a b. num_sub (key a) (key b)) x ?rest)"
    using Cons.prems by (intro sorted_insert_sorted) simp_all
  then show ?case by (simp add: array_sort_def)
qed

lemma starts_double_parseDialogue: "starts_double p \<Longrightarrow> starts_double (parseDialogue p line)"
  by (simp add: starts_double_def parseDialogue_def Let_def event_of_parts_def is_double_parseTime)

lemma starts_double_parseStyle: "starts_double p \<Longrightarrow> starts_double (parseStyle p line)"
  by (simp add: starts_double_def parseStyle_def Let_def)

lemma starts_double_parse_line:
  "starts_double (snd st) \<Longrightarrow> starts_double (snd (parse_line st raw))"
  by (cases st)
    (simp add: parse_line_def Let_def starts_double_parseDialogue starts_double_parseStyle)

lemma starts_double_foldl:
  "starts_double (snd st) \<Longrightarrow> starts_double (snd (foldl parse_line st ls))"
  by (induction ls arbitrary: st) (simp_all add: starts_double_parse_line)

lemma compare_start_eq: "compare_start = (\<lambda>a b. num_sub (ev_start a) (ev_start b))"
  by (simp add: compare_start_def fun_eq_iff)

lemma events_parseASS_mset:
  "mset (events (parseASS this)) =
     mset (events (snd (foldl parse_line (None, this) (split (CHR 0x0A) (assContent this)))))"
  by (simp add: parseASS_def Let_def mset_array_sort)

lemma sorted_events_new_ASSParser:
  assumes "starts_ok (new_ASSParser content)"
  shows "sorted_wrt (\<lambda>a b. num_le (ev_start a) (ev_start b)) (events (new_ASSParser content))"
proof -
  let ?p0 = "\<lparr> assContent = content, styles = Map.empty, events = [] \<rparr>"
  let ?p = "snd (foldl parse_line (None, ?p0) (split (CHR 0x0A) content))"
  have ev: "events (new_ASSParser content) = array_sort compare_start (events ?p)"
    by (simp add: new_ASSParser_def parseASS_def Let_def)
  have "starts_double ?p"
    by (rule starts_double_foldl) (simp add: starts_double_def)
  then have d: "\<forall>e \<in> set (events ?p). is_double (ev_start e)"
    by (simp add: starts_double_def list_all_iff)
  from assms have n: "\<forall>e \<in> set (events ?p). ev_start e \<noteq> NaN"
    by (simp add: starts_ok_def list_all_iff ev set_array_sort)
  from d n show ?thesis
    by (simp add: ev compare_start_eq sorted_array_sort)
qed

lemma unordered_text_starts:
  "map ev_text (events (new_ASSParser unordered_text)) = [''first'', ''second'', ''third'']
   \<and> map ev_start (events (new_ASSParser unordered_text)) = [Fin 0, Fin 1000, Fin 2000]"
  by code_simp

text \<open>
  C9, as the code has it. When no start time read from the text is \<open>NaN\<close>, the events of a
  newly constructed parser are in ascending order of their start times, whatever the order
  of the dialogue lines in the text. In the example the lines come with the start times
  2000, 0 and 1000, and the events with 0, 1000 and 2000.
\<close>

theorem events_sorted_after_parse:
  "(starts_ok (new_ASSParser content) \<longrightarrow>
      sorted_wrt (\<lambda>a b. num_le (ev_start a) (ev_start b)) (events (new_ASSParser content)))
   \<and> map ev_start (events (new_ASSParser unordered_text)) = [Fin 0, Fin 1000, Fin 2000]"
  using sorted_events_new_ASSParser unordered_text_starts by blast

theorem events_sorted_after_parse_witness:
  "starts_ok (new_ASSParser unordered_text)
   \<and> sorted_wrt (\<lambda>a b. num_le (ev_start a) (ev_start b)) (events (new_ASSParser unordered_text))"
proof -
  have "starts_ok (new_ASSParser unordered_text)" by code_simp
  then show ?thesis
    using events_sorted_after_parse [of unordered_text] by blast
qed

lemma nan_start_text_events:
  "map (\<lambda>e. (ev_start e, ev_text e)) (events (new_ASSParser nan_start_text))
     = [(Fin 2000, ''late''), (NaN, ''odd''), (Fin 1000, ''early'')]"
  by code_simp

text \<open>
  The claim C9 as stated fails. In the second dialogue line of this text the hours are
  \<open>Infinity\<close> and the seconds \<open>-Infinity\<close>, so its start time is \<open>NaN\<close>. Every difference
  with \<open>NaN\<close> is \<open>NaN\<close>, which the sort takes as zero: the events stay in the order of the
  lines, with the start times 2000, \<open>NaN\<close> and 1000.
\<close>

theorem events_unsorted_counterexample:
  "map ev_start (events (new_ASSParser nan_start_text)) = [Fin 2000, NaN, Fin 1000]
   \<and> map ev_text (events (new_ASSParser nan_start_text)) = [''late'', ''odd'', ''early'']
   \<and> \<not> sorted_wrt (\<lambda>a b. num_le (ev_start a) (ev_start b)) (events (new_ASSParser nan_start_text))"
proof -
  let ?es = "events (new_ASSParser nan_start_text)"
  have "map fst (map (\<lambda>e. (ev_start e, ev_text e)) ?es) = [Fin 2000, NaN, Fin 1000]"
    by (simp only: nan_start_text_events) simp
  then have s: "map ev_start ?es = [Fin 2000, NaN, Fin 1000]"
    by (simp add: comp_def)
  have "map snd (map (\<lambda>e. (ev_start e, ev_text e)) ?es) = [''late'', ''odd'', ''early'']"
    by (simp only: nan_start_text_events) simp
  then have t: "map ev_text ?es = [''late'', ''odd'', ''early'']"
    by (simp add: comp_def)
  have "sorted_wrt (\<lambda>a b. num_le (ev_start a) (ev_start b)) ?es
      = sorted_wrt num_le (map ev_start ?es)"
    by (simp add: sorted_wrt_map)
  also have "\<dots> = sorted_wrt num_le [Fin 2000, NaN, Fin 1000]"
    by (simp only: s)
  also have "\<dots> = False"
    by simp
  finally show ?thesis using s t by simp
qed

subsection \<open>The active events\<close>

lemma two_events_active:
  "map (\<lambda>e. (ev_start e, ev_end e, ev_text e))
       (getActiveSubtitles (new_ASSParser two_events_text) (Fin 1000))
     = [(Fin 0, Fin 1000, ''A''), (Fin 1000, Fin 2000, ''B'')]"
  by code_simp

text \<open>
  C1. For every event track and every query time \<open>t\<close>, \<open>getActiveSubtitles\<close> returns, in
  the order of the track, exactly the events \<open>e\<close> with \<open>start e <= t\<close> and \<open>t <= end e\<close>.
  Both ends are included: an event whose start is not after its end is active at the
  instant of its start and at the instant of its end. For the two parsed events with the
  intervals [0, 1000] and [1000, 2000] the query at 1000 returns both.
\<close>

theorem active_events_inclusive:
  "getActiveSubtitles this t
     = filter (\<lambda>e. num_le (ev_start e) t \<and> num_le t (ev_end e)) (events this)
   \<and> (e \<in> set (getActiveSubtitles this t)
        \<longleftrightarrow> e \<in> set (events this) \<and> num_le (ev_start e) t \<and> num_le t (ev_end e))
   \<and> (e \<in> set (events this) \<and> num_le (ev_start e) (ev_end e)
        \<longrightarrow> e \<in> set (getActiveSubtitles this (ev_start e))
          \<and> e \<in> set (getActiveSubtitles this (ev_end e)))
   \<and> map (\<lambda>e. (ev_start e, ev_end e, ev_text e))
        (getActiveSubtitles (new_ASSParser two_events_text) (Fin 1000))
       = [(Fin 0, Fin 1000, ''A''), (Fin 1000, Fin 2000, ''B'')]"
proof -
  have ends: "num_le (ev_start e) (ev_end e)
      \<Longrightarrow> num_le (ev_start e) (ev_start e) \<and> num_le (ev_end e) (ev_end e)"
    using num_le_not_NaN num_le_refl by blast
  show ?thesis
    using ends two_events_active by (auto simp: getActiveSubtitles_def num_ge_def)
qed

theorem active_events_inclusive_witness:
  "hd (events (new_ASSParser two_events_text))
     \<in> set (getActiveSubtitles (new_ASSParser two_events_text)
              (ev_end (hd (events (new_ASSParser two_events_text)))))"
proof -
  have "hd (events (new_ASSParser two_events_text)) \<in> set (events (new_ASSParser two_events_text))
     \<and> num_le (ev_start (hd (events (new_ASSParser two_events_text))))
              (ev_end (hd (events (new_ASSParser two_events_text))))"
    by code_simp
  then show ?thesis
    using active_events_inclusive [of "new_ASSParser two_events_text" "Fin 0"
        "hd (events (new_ASSParser two_events_text))"]
    by blast
qed

subsection \<open>Splitting and joining\<close>

lemma split_nonempty: "split c s \<noteq> []"
  by (induction s) (auto split: list.split)

lemma join_split: "join c (split c s) = s"
proof (induction s)
  case Nil
  then show ?case by simp
next
  case (Cons x xs)
  then show ?case
    by (cases "split c xs"; cases "tl (split c xs)") auto
qed

lemma replace_prefix: "startsWith line p \<Longrightarrow> replace line p [] = drop (length p) line"
  by (cases line) (auto simp: startsWith_def)

subsection \<open>The style table\<close>

lemma parse_undefined: "parseInt ''undefined'' 0 = NaN" "parseFloat ''undefined'' = NaN"
  by code_simp+

text \<open>
  C10. A style line of exactly 16 fields still stores a whole style record under its name.
  The six positions after the border style are absent; reading them gives \<open>undefined\<close>,
  which neither \<open>parseFloat\<close> nor \<open>parseInt\<close> can read, so the record has outline 0,
  shadow 0, alignment 2 and the three margins 0.
\<close>

theorem short_style_defaults:
  assumes "length (style_parts line) = 16" and "st = style_of_parts (style_parts line)"
  shows "parseStyle this line = this\<lparr>styles := (styles this)(name st \<mapsto> st)\<rparr>
       \<and> styles (parseStyle this line) (name st) = Some st
       \<and> outline st = Fin 0 \<and> shadow st = Fin 0 \<and> alignment st = Fin 2
       \<and> marginL st = Fin 0 \<and> marginR st = Fin 0 \<and> marginV st = Fin 0"
proof -
  have p: "parseStyle this line = this\<lparr>styles := (styles this)(name st \<mapsto> st)\<rparr>"
    using assms by (simp add: parseStyle_def Let_def)
  have absent: "at_index (style_parts line) 16 = None" "at_index (style_parts line) 17 = None"
    "at_index (style_parts line) 18 = None" "at_index (style_parts line) 19 = None"
    "at_index (style_parts line) 20 = None" "at_index (style_parts line) 21 = None"
    using assms(1) by (simp_all add: at_index_def)
  have f: "outline st = Fin 0" "shadow st = Fin 0" "alignment st = Fin 2"
    "marginL st = Fin 0" "marginR st = Fin 0" "marginV st = Fin 0"
    by (simp_all add: assms(2) style_of_parts_def absent ToString_def parse_undefined
        num_or_def)
  show ?thesis using p f by simp
qed

theorem short_style_defaults_witness:
  "length (style_parts short_style_line) = 16
   \<and> map_option alignment (styles (parseStyle empty_parser short_style_line) ''Default'') = Some (Fin 2)
   \<and> map_option outline (styles (parseStyle empty_parser short_style_line) ''Default'') = Some (Fin 0)"
proof -
  have l: "length (style_parts short_style_line) = 16" by code_simp
  have n: "name (style_of_parts (style_parts short_style_line)) = ''Default''" by code_simp
  show ?thesis
    using short_style_defaults [OF l refl, of empty_parser] l n by simp
qed

text \<open>
  The claim C5 as stated fails: the alignment field 15 is stored as 15, which is not one of
  1 to 9.
\<close>

theorem style_alignment_unchecked_counterexample:
  "map_option alignment (styles (new_ASSParser wide_alignment_text) ''Default'') = Some (Fin 15)
   \<and> Fin 15 \<notin> set (map Fin [1, 2, 3, 4, 5, 6, 7, 8, 9])
   \<and> \<not> num_le (Fin 15) (Fin 9)"
proof -
  have "map_option alignment (styles (new_ASSParser wide_alignment_text) ''Default'') = Some (Fin 15)"
    by code_simp
  then show ?thesis by simp
qed

text \<open>
  C5, as the code has it. The record that a style line of at least 16 fields stores has as
  its alignment the number that \<open>parseInt\<close> reads from the 19th field when that is not
  zero, and 2 when the field is absent, unreadable or zero; no range is checked, the
  alignment is only never zero and never \<open>NaN\<close>. A field that cannot be read gives
  the default: font size 16, scale 100 and 100, border style 1, alignment 2, margins 0.
\<close>

theorem style_defaults:
  assumes "16 \<le> length (style_parts line)"
    and "parts = style_parts line" and "st = style_of_parts parts"
  shows "styles (parseStyle this line) (name st) = Some st
       \<and> alignment st =
           (if parseInt (ToString (at_index parts 18)) 0 = NaN
               \<or> parseInt (ToString (at_index parts 18)) 0 = Fin 0
            then Fin 2 else parseInt (ToString (at_index parts 18)) 0)
       \<and> alignment st \<noteq> Fin 0 \<and> alignment st \<noteq> NaN
       \<and> (parseInt (ToString (at_index parts 18)) 0 = NaN \<longrightarrow> alignment st = Fin 2)
       \<and> (parseInt (parts ! 2) 0 = NaN \<longrightarrow> fontSize st = Fin 16)
       \<and> (parseFloat (parts ! 11) = NaN \<longrightarrow> scaleX st = Fin 100)
       \<and> (parseFloat (parts ! 12) = NaN \<longrightarrow> scaleY st = Fin 100)
       \<and> (parseInt (parts ! 15) 0 = NaN \<longrightarrow> borderStyle st = Fin 1)
       \<and> (parseInt (ToString (at_index parts 19)) 0 = NaN \<longrightarrow> marginL st = Fin 0)
       \<and> (parseInt (ToString (at_index parts 20)) 0 = NaN \<longrightarrow> marginR st = Fin 0)
       \<and> (parseInt (ToString (at_index parts 21)) 0 = NaN \<longrightarrow> marginV st = Fin 0)"
proof -
  have p: "styles (parseStyle this line) (name st) = Some st"
    using assms by (simp add: parseStyle_def Let_def)
  have present: "at_index parts 2 = Some (parts ! 2)" "at_index parts 11 = Some (parts ! 11)"
    "at_index parts 12 = Some (parts ! 12)" "at_index parts 15 = Some (parts ! 15)"
    using assms(1,2) by (simp_all add: at_index_def)
  have al: "alignment st =
           (if parseInt (ToString (at_index parts 18)) 0 = NaN
               \<or> parseInt (ToString (at_index parts 18)) 0 = Fin 0
            then Fin 2 else parseInt (ToString (at_index parts 18)) 0)"
    by (simp add: assms(3) style_of_parts_def num_or_def)
  have nz: "alignment st \<noteq> Fin 0" "alignment st \<noteq> NaN"
    by (simp_all add: al)
  have d1: "parseInt (parts ! 2) 0 = NaN \<Longrightarrow> fontSize st = Fin 16"
    by (simp add: assms(3) style_of_parts_def num_or_def present ToString_def)
  have d2: "parseFloat (parts ! 11) = NaN \<Longrightarrow> scaleX st = Fin 100"
    by (simp add: assms(3) style_of_parts_def num_or_def present ToString_def)
  have d3: "parseFloat (parts ! 12) = NaN \<Longrightarrow> scaleY st = Fin 100"
    by (simp add: assms(3) style_of_parts_def num_or_def present ToString_def)
  have d4: "parseInt (parts ! 15) 0 = NaN \<Longrightarrow> borderStyle st = Fin 1"
    by (simp add: assms(3) style_of_parts_def num_or_def present ToString_def)
  have d5: "parseInt (ToString (at_index parts 19)) 0 = NaN \<Longrightarrow> marginL st = Fin 0"
    by (simp add: assms(3) style_of_parts_def num_or_def)
  have d6: "parseInt (ToString (at_index parts 20)) 0 = NaN \<Longrightarrow> marginR st = Fin 0"
    by (simp add: assms(3) style_of_parts_def num_or_def)
  have d7: "parseInt (ToString (at_index parts 21)) 0 = NaN \<Longrightarrow> marginV st = Fin 0"
    by (simp add: assms(3) style_of_parts_def num_or_def)
  show ?thesis
    using p al nz d1 d2 d3 d4 d5 d6 d7 by simp
qed

theorem style_defaults_witness:
  "16 \<le> length (style_parts bad_fields_line)
   \<and> map_option (\<lambda>st. (fontSize st, scaleX st, scaleY st, borderStyle st, alignment st,
                         marginL st, marginR st, marginV st))
        (styles (parseStyle empty_parser bad_fields_line) ''Odd'')
       = Some (Fin 16, Fin 100, Fin 100, Fin 1, Fin 2, Fin 0, Fin 0, Fin 0)"
proof -
  let ?parts = "style_parts bad_fields_line"
  have l: "16 \<le> length ?parts" by code_simp
  have n: "name (style_of_parts ?parts) = ''Odd''" by code_simp
  have f: "parseInt (ToString (at_index ?parts 18)) 0 = NaN"
    "parseInt (?parts ! 2) 0 = NaN" "parseFloat (?parts ! 11) = NaN"
    "parseFloat (?parts ! 12) = NaN" "parseInt (?parts ! 15) 0 = NaN"
    "parseInt (ToString (at_index ?parts 19)) 0 = NaN"
    "parseInt (ToString (at_index ?parts 20)) 0 = NaN"
    "parseInt (ToString (at_index ?parts 21)) 0 = NaN"
    by code_simp+
  show ?thesis
    using style_defaults [OF l refl refl, of empty_parser] l n f by simp
qed

subsection \<open>The colour codec\<close>

lemma parseColor_red: "parseColor ''&H0000FF&'' = ''rgb(255, 0, 0)''"
  by code_simp

lemma parseColor_unwrapped:
  "\<not> (startsWith s ''&H'' \<and> endsWith s ''&'') \<Longrightarrow> parseColor s = ''#ffffff''"
  by (auto simp: parseColor_def)

lemma hex_digit_read:
  assumes "d < 16"
  shows "digit_val (hex_digit d) = Some d \<and> \<not> is_ws (hex_digit d)
    \<and> hex_digit d \<noteq> CHR ''-'' \<and> hex_digit d \<noteq> CHR ''+''
    \<and> hex_digit d \<noteq> CHR ''x'' \<and> hex_digit d \<noteq> CHR ''X''"
proof -
  from assms consider "d = 0" | "d = 1" | "d = 2" | "d = 3" | "d = 4" | "d = 5" | "d = 6"
    | "d = 7" | "d = 8" | "d = 9" | "d = 10" | "d = 11" | "d = 12" | "d = 13" | "d = 14"
    | "d = 15"
    by atomize_elim presburger
  then show ?thesis
    by cases (simp_all add: hex_digit_def digit_val_def is_ws_def)
qed

lemma parseInt_hex_byte:
  assumes "n < 256"
  shows "parseInt (hex_byte n) 16 = Fin (of_nat n)"
proof -
  have hi: "n div 16 < 16" and lo: "n mod 16 < 16"
    using assms by presburger+
  have ar: "int (n div 16) * 16 + int (n mod 16) = int n"
    by presburger
  have "digits_value 16 [hex_digit (n div 16), hex_digit (n mod 16)]
      = int (n div 16) * 16 + int (n mod 16)"
    by (simp add: digits_value_def hex_digit_read [OF hi] hex_digit_read [OF lo])
  with ar have dv: "digits_value 16 [hex_digit (n div 16), hex_digit (n mod 16)] = int n"
    by (simp only:)
  have "parseInt [hex_digit (n div 16), hex_digit (n mod 16)] 16
      = round64 (of_int (digits_value 16 [hex_digit (n div 16), hex_digit (n mod 16)]))"
    using hi lo
    by (simp add: parseInt_def trimStart_def take_sign_def startsWith_def is_digit_def
        hex_digit_read [OF hi] hex_digit_read [OF lo])
  also have "\<dots> = round64 (of_int (int n))"
    by (simp only: dv)
  also have "\<dots> = Fin (of_int (int n))"
    using assms by (intro round64_of_int) simp
  finally show ?thesis
    by (simp add: hex_byte_def)
qed

lemma length_hex_byte: "length (hex_byte n) = 2"
  by (simp add: hex_byte_def)

text \<open>
  A field \<open>&Hbbggrr&\<close> of three bytes in the order blue, green, red is printed with the
  bytes in the order red, green, blue.
\<close>

lemma parseColor_bgr:
  assumes "r < 256" and "g < 256" and "b < 256"
  shows "parseColor (''&H'' @ hex_byte b @ hex_byte g @ hex_byte r @ ''&'')
       = ''rgb('' @ show_nat (int r) @ '', '' @ show_nat (int g) @ '', '' @ show_nat (int b) @ '')''"
proof -
  let ?s = "''&H'' @ hex_byte b @ hex_byte g @ hex_byte r @ ''&''"
  have w: "startsWith ?s ''&H''" "endsWith ?s ''&''"
    by (simp_all add: startsWith_def endsWith_def length_hex_byte)
  have h: "slice ?s 2 (- 1) = hex_byte b @ hex_byte g @ hex_byte r"
    by (simp add: slice_def slice_index_def Let_def length_hex_byte)
  have p: "substr (hex_byte b @ hex_byte g @ hex_byte r) 0 2 = hex_byte b"
    "substr (hex_byte b @ hex_byte g @ hex_byte r) 2 2 = hex_byte g"
    "substr (hex_byte b @ hex_byte g @ hex_byte r) 4 2 = hex_byte r"
    by (simp_all add: substr_def length_hex_byte)
  show ?thesis
    using assms w
    by (simp add: parseColor_def h p parseInt_hex_byte show_num_def del: append.simps)
qed

text \<open>
  C4. The claim sends every colour field that is not wrapped hexadecimal to white. The
  code tests the wrapping only: the field \<open>&HZZZZZZ&\<close> starts with \<open>&H\<close> and ends with
  \<open>&\<close>, none of its pairs is hexadecimal, and \<open>parseColor\<close> returns the text
  \<open>rgb(NaN, NaN, NaN)\<close> for it, not white.
\<close>

theorem parseColor_not_hex:
  "startsWith ''&HZZZZZZ&'' ''&H'' \<and> endsWith ''&HZZZZZZ&'' ''&''
   \<and> parseColor ''&HZZZZZZ&'' = ''rgb(NaN, NaN, NaN)''
   \<and> parseColor ''&HZZZZZZ&'' \<noteq> ''#ffffff''"
  by code_simp

subsection \<open>The dialogue text\<close>

text \<open>
  The claim C6 as stated fails: the fields from the 10th on, joined with commas, begin
  with a blank here, and the text of the event does not.
\<close>

theorem dialogue_text_untrimmed_counterexample:
  "10 \<le> length (dialogue_parts padded_text_line)
   \<and> join CHR '','' (slice_from (dialogue_parts padded_text_line) 9) = '' Hello, world''
   \<and> map ev_text (events (parseDialogue empty_parser padded_text_line)) = [''Hello, world'']"
  by code_simp

text \<open>
  C6, as the code has it. For a dialogue line of at least 10 fields, \<open>parseDialogue\<close>
  appends one event, and its text is the fields from the 10th on joined with commas, with
  the white space at both ends removed. The text \<open>Hello, world\<close> is kept whole.
\<close>

theorem dialogue_text_rejoined:
  assumes "10 \<le> length (dialogue_parts line)"
  shows "events (parseDialogue this line) = events this @ [event_of_parts (dialogue_parts line)]
       \<and> ev_text (event_of_parts (dialogue_parts line))
           = trim (join CHR '','' (drop 9 (dialogue_parts line)))
       \<and> map ev_text (events (parseDialogue empty_parser comma_text_line)) = [''Hello, world'']"
proof -
  have e: "map ev_text (events (parseDialogue empty_parser comma_text_line)) = [''Hello, world'']"
    by code_simp
  have t: "ev_text (event_of_parts (dialogue_parts line))
           = trim (join CHR '','' (drop 9 (dialogue_parts line)))"
    using assms by (simp add: event_of_parts_def slice_from_def slice_index_def)
  show ?thesis
    using assms e t by (simp add: parseDialogue_def Let_def)
qed

theorem dialogue_text_rejoined_witness:
  "10 \<le> length (dialogue_parts padded_text_line)
   \<and> events (parseDialogue empty_parser padded_text_line)
       = [event_of_parts (dialogue_parts padded_text_line)]
   \<and> ev_text (event_of_parts (dialogue_parts padded_text_line)) = ''Hello, world''"
proof -
  have l: "10 \<le> length (dialogue_parts padded_text_line)" by code_simp
  have t: "trim (join CHR '','' (drop 9 (dialogue_parts padded_text_line))) = ''Hello, world''"
    by code_simp
  have e: "events empty_parser = []" by (simp add: empty_parser_def)
  show ?thesis
    using dialogue_text_rejoined [OF l, of empty_parser] l t e by simp
qed

subsection \<open>The position of a subtitle\<close>

lemma getPositionStyle_column:
  "getPositionStyle (Some st) =
     (let al = num_or (alignment st) (Fin 2) in
      [(''textAlign'', if al \<in> {Fin 1, Fin 4, Fin 7} then ''left''
                       else if al \<in> {Fin 3, Fin 6, Fin 9} then ''right'' else ''center''),
       (''alignSelf'', if al \<in> {Fin 1, Fin 4, Fin 7} then ''flex-start''
                       else if al \<in> {Fin 3, Fin 6, Fin 9} then ''flex-end'' else ''center''),
       (''width'', ''100%'')])"
  by (simp add: getPositionStyle_def Let_def)

text \<open>
  C8. The claim gives the codes 7 and 9 the top anchor and the code 5 the middle anchor.
  \<open>getPositionStyle\<close> returns \<open>textAlign\<close>, \<open>alignSelf\<close> and \<open>width\<close> only, and both
  follow the column of the code: 7 gives left and flex-start, 9 gives right and flex-end,
  5 gives center and center. The row is not in the result: the code 1 of the bottom row
  gives what the code 7 of the top row gives, and 3 what 9 gives.
\<close>

theorem getPositionStyle_no_row:
  "getPositionStyle (Some (st\<lparr>alignment := Fin 7\<rparr>))
     = [(''textAlign'', ''left''), (''alignSelf'', ''flex-start''), (''width'', ''100%'')]
   \<and> getPositionStyle (Some (st\<lparr>alignment := Fin 9\<rparr>))
     = [(''textAlign'', ''right''), (''alignSelf'', ''flex-end''), (''width'', ''100%'')]
   \<and> getPositionStyle (Some (st\<lparr>alignment := Fin 5\<rparr>))
     = [(''textAlign'', ''center''), (''alignSelf'', ''center''), (''width'', ''100%'')]
   \<and> getPositionStyle (Some (st\<lparr>alignment := Fin 1\<rparr>)) = getPositionStyle (Some (st\<lparr>alignment := Fin 7\<rparr>))
   \<and> getPositionStyle (Some (st\<lparr>alignment := Fin 3\<rparr>)) = getPositionStyle (Some (st\<lparr>alignment := Fin 9\<rparr>))
   \<and> keypad_row 1 \<noteq> keypad_row 7 \<and> keypad_row 3 \<noteq> keypad_row 9"
  by (simp add: getPositionStyle_column keypad_row_def num_or_def Let_def)

subsection \<open>The text of a subtitle\<close>

lemma has_tag_iff: "has_tag s \<longleftrightarrow> (\<exists>p u r. s = p @ CHR ''{'' # u @ CHR ''}'' # r)"
proof (induction s)
  case Nil
  then show ?case by simp
next
  case (Cons c cs)
  show ?case
  proof
    assume "has_tag (c # cs)"
    then consider "c = CHR ''{''" "CHR ''}'' \<in> set cs" | "has_tag cs" by auto
    then show "\<exists>p u r. c # cs = p @ CHR ''{'' # u @ CHR ''}'' # r"
    proof cases
      case 1
      then obtain u r where "cs = u @ CHR ''}'' # r"
        by (auto simp: in_set_conv_decomp)
      with 1 have "c # cs = [] @ CHR ''{'' # u @ CHR ''}'' # r" by simp
      then show ?thesis by blast
    next
      case 2
      with Cons.IH obtain p u r where "cs = p @ CHR ''{'' # u @ CHR ''}'' # r" by blast
      then have "c # cs = (c # p) @ CHR ''{'' # u @ CHR ''}'' # r" by simp
      then show ?thesis by blast
    qed
  next
    assume "\<exists>p u r. c # cs = p @ CHR ''{'' # u @ CHR ''}'' # r"
    then obtain p u r where e: "c # cs = p @ CHR ''{'' # u @ CHR ''}'' # r" by blast
    show "has_tag (c # cs)"
    proof (cases p)
      case Nil
      with e show ?thesis by auto
    next
      case (Cons a p')
      with e have "cs = p' @ CHR ''{'' # u @ CHR ''}'' # r" by simp
      with Cons.IH show ?thesis by auto
    qed
  qed
qed
















end
